theory Spec2Isabelle
  imports
    Main
    "HOL-Library.Word"
    "HOL-Library.Multiset"
    "HOL-Library.Char_ord"
    "HOL-Library.List_Lexorder"
begin

section \<open>Proof artifacts: \<open>serializeProof\<close> (index.js) and \<open>deserializeProof\<close> (verification.js)\<close>

text \<open>
  The prover's result is an object with a \<open>Uint8Array\<close> field \<open>proof\<close> and a field
  \<open>publicInputs\<close> (an array of strings). The source reads \<open>proof.publicInputs || []\<close>, so
  the field may be missing: it is an option here, \<open>None\<close> standing for \<open>undefined\<close>.
  (An empty array is truthy in JavaScript, so \<open>[] || []\<close> is the left array.)
  The field \<open>proof\<close> is called \<open>proof_bytes\<close>, since \<open>proof\<close> is reserved.
\<close>

type_synonym byte = "8 word"

record ProofData =
  proof_bytes :: "byte list"
  publicInputs :: "string list option"

text \<open>
  The object that \<open>serializeProof\<close> returns and that \<open>JSON.stringify\<close> writes:
  \<open>proof\<close> is a plain array of numbers, \<open>timestamp\<close> is \<open>Date.now()\<close>. The same shape is
  what \<open>JSON.parse\<close> hands to \<open>deserializeProof\<close>; pasted text may lack \<open>publicInputs\<close>.
\<close>

record StoredProof =
  stored_proof :: "int list"
  stored_publicInputs :: "string list option"
  timestamp :: int

definition or_empty :: "'a list option \<Rightarrow> 'a list" where
  "or_empty v = (case v of None \<Rightarrow> [] | Some xs \<Rightarrow> xs)"

text \<open>\<open>Array.from(proof.proof)\<close>: every byte of the typed array as a number 0..255.\<close>

definition serializeProof :: "int \<Rightarrow> ProofData \<Rightarrow> StoredProof" where
  "serializeProof now p =
     \<lparr> stored_proof = map uint (proof_bytes p),
       stored_publicInputs = Some (or_empty (publicInputs p)),
       timestamp = now \<rparr>"

text \<open>
  \<open>new Uint8Array(data.proof)\<close> stores every number modulo 256 (ToUint8), which is what
  \<open>word_of_int\<close> does on \<open>8 word\<close>. The timestamp is not read.
\<close>

definition deserializeProof :: "StoredProof \<Rightarrow> ProofData" where
  "deserializeProof d =
     \<lparr> proof_bytes = map word_of_int (stored_proof d),
       publicInputs = Some (or_empty (stored_publicInputs d)) \<rparr>"


section \<open>PKCE material: \<open>generatePKCEChallenge\<close> (utils/pkce.ts)\<close>

subsection \<open>Hexadecimal rendering of a byte\<close>

definition hex_digit :: "nat \<Rightarrow> char" where
  "hex_digit n = ''0123456789abcdef'' ! n"

text \<open>\<open>b.toString(16)\<close> for a byte: one digit below 16, two digits otherwise.\<close>

definition toString16 :: "byte \<Rightarrow> string" where
  "toString16 b =
     (if unat b < 16 then [hex_digit (unat b)]
      else [hex_digit (unat b div 16), hex_digit (unat b mod 16)])"

text \<open>\<open>s.padStart(2, '0')\<close>.\<close>

definition padStart2 :: "string \<Rightarrow> string" where
  "padStart2 s = replicate (2 - length s) CHR ''0'' @ s"

subsection \<open>\<open>btoa\<close> and the three \<open>replace\<close> calls\<close>

text \<open>
  The 6-bit groups of a byte string, most significant bit first, the last group filled
  with zero bits (RFC 4648, section 4).
\<close>

fun sextets :: "byte list \<Rightarrow> nat list" where
  "sextets [] = []"
| "sextets [a] = [unat a div 4, (unat a mod 4) * 16]"
| "sextets [a, b] =
     [unat a div 4, (unat a mod 4) * 16 + unat b div 16, (unat b mod 16) * 4]"
| "sextets (a # b # c # rest) =
     [unat a div 4, (unat a mod 4) * 16 + unat b div 16,
      (unat b mod 16) * 4 + unat c div 64, unat c mod 64] @ sextets rest"

definition base64_alphabet :: string where
  "base64_alphabet = ''ABCDEFGHIJKLMNOPQRSTUVWXYZabcdefghijklmnopqrstuvwxyz0123456789+/''"

text \<open>
  \<open>btoa\<close> is the browser's standard Base64 encoder: the alphabet ending in \<open>+\<close> and \<open>/\<close>,
  and \<open>=\<close> padding up to a multiple of four characters.
\<close>

definition btoa :: "byte list \<Rightarrow> string" where
  "btoa bs =
     map (\<lambda>n. base64_alphabet ! n) (sextets bs)
       @ replicate ((3 - length bs mod 3) mod 3) CHR ''=''"

text \<open>\<open>.replace(/\+/g, '-')\<close>, \<open>.replace(/\//g, '_')\<close> and \<open>.replace(/=+$/, '')\<close>.\<close>

definition replace_plus :: "string \<Rightarrow> string" where
  "replace_plus s = map (\<lambda>c. if c = CHR ''+'' then CHR ''-'' else c) s"

definition replace_slash :: "string \<Rightarrow> string" where
  "replace_slash s = map (\<lambda>c. if c = CHR ''/'' then CHR ''_'' else c) s"

definition strip_trailing_eq :: "string \<Rightarrow> string" where
  "strip_trailing_eq s = rev (dropWhile (\<lambda>c. c = CHR ''='') (rev s))"

subsection \<open>The challenge\<close>

text \<open>\<open>new TextEncoder().encode(s)\<close> for a string of ASCII characters: one byte each.\<close>

definition encode_utf8 :: "string \<Rightarrow> byte list" where
  "encode_utf8 s = map of_char s"

record PKCEChallenge =
  verifier :: string
  challenge :: string

text \<open>
  The two external collaborators are parameters: \<open>array\<close> is what
  \<open>crypto.getRandomValues(new Uint8Array(32))\<close> filled in, \<open>digest\<close> is
  \<open>crypto.subtle.digest('SHA-256', _)\<close>.
\<close>

definition generatePKCEChallenge :: "(byte list \<Rightarrow> byte list) \<Rightarrow> byte list \<Rightarrow> PKCEChallenge" where
  "generatePKCEChallenge digest array =
     (let verifier = concat (map (\<lambda>b. padStart2 (toString16 b)) array);
          dat = encode_utf8 verifier;
          hash = digest dat;
          challenge = strip_trailing_eq (replace_slash (replace_plus (btoa hash)))
      in \<lparr> verifier = verifier, challenge = challenge \<rparr>)"

text \<open>
  \<open>TwitterLogin.handleLogin\<close> begins a login: it takes the pair of
  \<open>generatePKCEChallenge\<close> and a state from \<open>crypto.randomUUID()\<close> (the parameter \<open>uuid\<close>).
\<close>

record AuthorizationSession =
  session_verifier :: string
  session_challenge :: string
  session_state :: string

definition begin_login :: "(byte list \<Rightarrow> byte list) \<Rightarrow> byte list \<Rightarrow> string \<Rightarrow> AuthorizationSession" where
  "begin_login digest array uuid =
     (let p = generatePKCEChallenge digest array
      in \<lparr> session_verifier = verifier p, session_challenge = challenge p,
           session_state = uuid \<rparr>)"

text \<open>
  The specification's encoding, written from its words and from RFC 4648 (section 5,
  base64url, with the padding left out): the bytes are a stream of bits, the most
  significant bit of each byte first; the stream is cut into groups of 6 bits, the last
  group filled up with zero bits; each group, read as a number, selects a character of
  the alphabet whose values 62 and 63 are \<open>-\<close> and \<open>_\<close>.
\<close>

definition nat_bits8 :: "nat \<Rightarrow> nat list" where
  "nat_bits8 x = [x div 128 mod 2, x div 64 mod 2, x div 32 mod 2, x div 16 mod 2,
                  x div 8 mod 2, x div 4 mod 2, x div 2 mod 2, x mod 2]"

definition byte_bits :: "byte \<Rightarrow> nat list" where
  "byte_bits b = nat_bits8 (unat b)"

definition bits_value :: "nat list \<Rightarrow> nat" where
  "bits_value ds = foldl (\<lambda>a d. 2 * a + d) 0 ds"

fun groups_of_6 :: "nat list \<Rightarrow> nat list list" where
  "groups_of_6 [] = []"
| "groups_of_6 (d # ds) =
     (take 6 (d # ds) @ replicate (6 - length (d # ds)) 0) # groups_of_6 (drop 5 ds)"

definition base64url_alphabet :: string where
  "base64url_alphabet = ''ABCDEFGHIJKLMNOPQRSTUVWXYZabcdefghijklmnopqrstuvwxyz0123456789-_''"

definition base64url_unpadded :: "byte list \<Rightarrow> string" where
  "base64url_unpadded bs =
     map (\<lambda>g. base64url_alphabet ! bits_value g) (groups_of_6 (concat (map byte_bits bs)))"


section \<open>JSON values and \<open>JSON.stringify(value, keys)\<close>\<close>

text \<open>
  A parsed JSON value. An object is the list of its own properties in the order in which
  JavaScript enumerates them; a JavaScript object holds a property name once
  (\<open>wf_json\<close>). The numbers are the integers, which is what the counts of a profile are;
  a string is the list of its code units.
\<close>

datatype json =
    JNull
  | JBool bool
  | JNum int
  | JStr string
  | JArr "json list"
  | JObj "(string \<times> json) list"

fun wf_json :: "json \<Rightarrow> bool" where
  "wf_json (JArr xs) = list_all wf_json xs"
| "wf_json (JObj kvs) = (distinct (map fst kvs) \<and> list_all (\<lambda>kv. wf_json (snd kv)) kvs)"
| "wf_json _ = True"

subsection \<open>Rendering numbers and strings\<close>

definition digit_char :: "nat \<Rightarrow> char" where
  "digit_char n = ''0123456789'' ! n"

fun show_nat :: "nat \<Rightarrow> string" where
  "show_nat n = (if n < 10 then [digit_char n] else show_nat (n div 10) @ [digit_char (n mod 10)])"

declare show_nat.simps [simp del]

definition show_int :: "int \<Rightarrow> string" where
  "show_int i = (if i < 0 then CHR ''-'' # show_nat (nat (- i)) else show_nat (nat i))"

text \<open>\<open>n.toString(16)\<close> for a non-negative integer (the big numbers of the signature).\<close>

fun nat_toString16 :: "nat \<Rightarrow> string" where
  "nat_toString16 n =
     (if n < 16 then [hex_digit n] else nat_toString16 (n div 16) @ [hex_digit (n mod 16)])"

declare nat_toString16.simps [simp del]

text \<open>\<open>buffer.toString('hex')\<close>: two lower-case digits for every byte.\<close>

definition buffer_hex :: "byte list \<Rightarrow> string" where
  "buffer_hex bs = concat (map (\<lambda>b. [hex_digit (unat b div 16), hex_digit (unat b mod 16)]) bs)"

text \<open>
  QuoteJSONString of ECMAScript: the quote and the backslash are escaped, the control
  characters have their short escape or \<open>\u00XX\<close>.
\<close>

definition quote_char :: "char \<Rightarrow> string" where
  "quote_char c =
     (let n = (of_char c :: nat) in
      if c = CHR 0x22 then [CHR 0x5C, CHR 0x22]
      else if c = CHR 0x5C then [CHR 0x5C, CHR 0x5C]
      else if n = 8 then [CHR 0x5C, CHR ''b'']
      else if n = 9 then [CHR 0x5C, CHR ''t'']
      else if n = 10 then [CHR 0x5C, CHR ''n'']
      else if n = 12 then [CHR 0x5C, CHR ''f'']
      else if n = 13 then [CHR 0x5C, CHR ''r'']
      else if n < 32 then [CHR 0x5C, CHR ''u'', CHR ''0'', CHR ''0'', hex_digit (n div 16), hex_digit (n mod 16)]
      else [c])"

definition QuoteJSONString :: "string \<Rightarrow> string" where
  "QuoteJSONString s = CHR 0x22 # concat (map quote_char s) @ [CHR 0x22]"

fun join_comma :: "string list \<Rightarrow> string" where
  "join_comma [] = []"
| "join_comma [s] = s"
| "join_comma (s # t # ss) = s @ CHR '','' # join_comma (t # ss)"

subsection \<open>Serialization with a property list\<close>

text \<open>
  \<open>JSON.stringify(value, K)\<close> with an array \<open>K\<close> of names: ECMAScript's
  SerializeJSONProperty with \<open>K\<close> as the PropertyList. The list applies to every object,
  at every depth: SerializeJSONObject goes through \<open>K\<close> in order and writes the
  properties that the object has; its own other properties are not written. No indentation
  is asked for. The values of a parsed response are never \<open>undefined\<close>, so every array
  element and every property that is present has a text. A name of \<open>K\<close> that an object
  does not have as its own is looked up in \<open>Object.prototype\<close> by JavaScript; what is
  found there is a function, which has no text, so the name is skipped (the accessor
  \<open>__proto__\<close> apart, a name that no profile has).
\<close>

fun stringify_with :: "string list \<Rightarrow> json \<Rightarrow> string" where
  "stringify_with K JNull = ''null''"
| "stringify_with K (JBool b) = (if b then ''true'' else ''false'')"
| "stringify_with K (JNum n) = show_int n"
| "stringify_with K (JStr s) = QuoteJSONString s"
| "stringify_with K (JArr xs) = ''['' @ join_comma (map (stringify_with K) xs) @ '']''"
| "stringify_with K (JObj kvs) =
     ''{'' @ join_comma
        (List.map_filter
           (\<lambda>k. case map_of (map (\<lambda>kv. (fst kv, stringify_with K (snd kv))) kvs) k of
                  None \<Rightarrow> None
                | Some s \<Rightarrow> Some (QuoteJSONString k @ '':'' @ s))
           K) @ ''}''"

text \<open>\<open>JSON.stringify(value)\<close> with no property list: every property, in the object's order.\<close>

fun stringify :: "json \<Rightarrow> string" where
  "stringify JNull = ''null''"
| "stringify (JBool b) = (if b then ''true'' else ''false'')"
| "stringify (JNum n) = show_int n"
| "stringify (JStr s) = QuoteJSONString s"
| "stringify (JArr xs) = ''['' @ join_comma (map stringify xs) @ '']''"
| "stringify (JObj kvs) =
     ''{'' @ join_comma (map (\<lambda>kv. QuoteJSONString (fst kv) @ '':'' @ stringify (snd kv)) kvs) @ ''}''"

text \<open>
  The value whose plain text \<open>JSON.stringify(value, K)\<close> is: in every object, the
  properties named by \<open>K\<close>, in the order of \<open>K\<close>.
\<close>

fun canonical_form :: "string list \<Rightarrow> json \<Rightarrow> json" where
  "canonical_form K (JArr xs) = JArr (map (canonical_form K) xs)"
| "canonical_form K (JObj kvs) =
     JObj (List.map_filter
        (\<lambda>k. case map_of (map (\<lambda>kv. (fst kv, canonical_form K (snd kv))) kvs) k of
               None \<Rightarrow> None
             | Some c \<Rightarrow> Some (k, c))
        K)"
| "canonical_form K v = v"

text \<open>Every object, at every depth, lists its names in strictly ascending order.\<close>

fun keys_ascending :: "json \<Rightarrow> bool" where
  "keys_ascending (JArr xs) = list_all keys_ascending xs"
| "keys_ascending (JObj kvs) =
     (sorted (map fst kvs) \<and> distinct (map fst kvs)
        \<and> list_all (\<lambda>kv. keys_ascending (snd kv)) kvs)"
| "keys_ascending _ = True"

text \<open>
  The specification's canonicalization, written from its words ("canonicalize the payload
  by recursively sorting object keys"): every object, at every depth, keeps all of its
  properties and lists them in the ascending order of their names.
\<close>

fun spec_sort_keys :: "json \<Rightarrow> json" where
  "spec_sort_keys (JArr xs) = JArr (map spec_sort_keys xs)"
| "spec_sort_keys (JObj kvs) =
     JObj (sort_key fst (map (\<lambda>kv. (fst kv, spec_sort_keys (snd kv))) kvs))"
| "spec_sort_keys v = v"

datatype js_error = TypeError

text \<open>
  \<open>Object.keys(v)\<close>: the property names of an object, the indices of an array or of a
  string, nothing for a number or a boolean; it throws on \<open>null\<close>.
\<close>

fun Object_keys :: "json \<Rightarrow> js_error + string list" where
  "Object_keys JNull = Inl TypeError"
| "Object_keys (JObj kvs) = Inr (map fst kvs)"
| "Object_keys (JArr xs) = Inr (map show_nat [0..<length xs])"
| "Object_keys (JStr s) = Inr (map show_nat [0..<length s])"
| "Object_keys _ = Inr []"

text \<open>
  Line 110 of routes/twitter.ts:
  \<open>JSON.stringify(userData, Object.keys(userData).sort())\<close>. The default \<open>sort()\<close> orders
  strings by their code units, which is the lexicographic order of \<open>string\<close>. The
  PropertyList drops repeated names (\<open>remdups\<close>; the names of one object are distinct
  already).
\<close>

definition serializedData :: "json \<Rightarrow> js_error + string" where
  "serializedData userData =
     (case Object_keys userData of
        Inl e \<Rightarrow> Inl e
      | Inr keys \<Rightarrow> Inr (stringify_with (remdups (sort keys)) userData))"

text \<open>
  A key permutation of a payload: the same properties with the same values, listed in
  another order, in the payload itself and in every object inside it.
\<close>

inductive key_permuted :: "json \<Rightarrow> json \<Rightarrow> bool" where
  kp_null: "key_permuted JNull JNull"
| kp_bool: "key_permuted (JBool b) (JBool b)"
| kp_num: "key_permuted (JNum n) (JNum n)"
| kp_str: "key_permuted (JStr s) (JStr s)"
| kp_arr: "list_all2 key_permuted xs ys \<Longrightarrow> key_permuted (JArr xs) (JArr ys)"
| kp_obj: "list_all2 (\<lambda>p q. fst p = fst q \<and> key_permuted (snd p) (snd q)) kvs kvs' \<Longrightarrow>
           mset kvs'' = mset kvs' \<Longrightarrow> key_permuted (JObj kvs) (JObj kvs'')"

section \<open>The authority's routes (server/routes/twitter.ts)\<close>

subsection \<open>Environment, truthiness, form encoding\<close>

record server_env =
  TWITTER_CLIENT_ID :: "string option"
  TWITTER_CLIENT_SECRET :: "string option"
  REDIRECT_URI :: "string option"

text \<open>
  A string field of a request body or of the environment is an option (\<open>None\<close> for
  \<open>undefined\<close>). JavaScript takes \<open>undefined\<close> and the empty string as false.
\<close>

definition truthy :: "string option \<Rightarrow> bool" where
  "truthy v = (case v of None \<Rightarrow> False | Some s \<Rightarrow> s \<noteq> [])"

text \<open>\<open>v || d\<close>.\<close>

definition or_default :: "string option \<Rightarrow> string \<Rightarrow> string" where
  "or_default v d = (case v of None \<Rightarrow> d | Some s \<Rightarrow> if s = [] then d else s)"

text \<open>A value put into a template string or into \<open>URLSearchParams\<close>.\<close>

definition str_of :: "string option \<Rightarrow> string" where
  "str_of v = (case v of None \<Rightarrow> ''undefined'' | Some s \<Rightarrow> s)"

text \<open>
  \<open>URLSearchParams.toString()\<close>: the application/x-www-form-urlencoded serializer.
  Letters, digits and \<open>* - . _\<close> stay, a space becomes \<open>+\<close>, every other byte is
  written \<open>%XX\<close>.
\<close>

definition urlencoded_plain :: "char \<Rightarrow> bool" where
  "urlencoded_plain c =
     (let n = (of_char c :: nat) in
      (48 \<le> n \<and> n \<le> 57) \<or> (65 \<le> n \<and> n \<le> 90) \<or> (97 \<le> n \<and> n \<le> 122)
        \<or> n = 42 \<or> n = 45 \<or> n = 46 \<or> n = 95)"

definition upper_hex_digit :: "nat \<Rightarrow> char" where
  "upper_hex_digit n = ''0123456789ABCDEF'' ! n"

definition urlencode_char :: "char \<Rightarrow> string" where
  "urlencode_char c =
     (if urlencoded_plain c then [c]
      else if c = CHR '' '' then ''+''
      else [CHR ''%'', upper_hex_digit ((of_char c :: nat) div 16),
            upper_hex_digit ((of_char c :: nat) mod 16)])"

definition urlencode :: "string \<Rightarrow> string" where
  "urlencode s = concat (map urlencode_char s)"

fun join_amp :: "string list \<Rightarrow> string" where
  "join_amp [] = []"
| "join_amp [s] = s"
| "join_amp (s # t # ss) = s @ CHR ''&'' # join_amp (t # ss)"

definition URLSearchParams_toString :: "(string \<times> string) list \<Rightarrow> string" where
  "URLSearchParams_toString ps =
     join_amp (map (\<lambda>p. urlencode (fst p) @ ''='' @ urlencode (snd p)) ps)"

subsection \<open>\<open>POST /auth\<close>\<close>




subsection \<open>The provider, as \<open>axios\<close> sees it\<close>

record provider_request =
  req_method :: string
  req_url :: string
  req_body :: string
  req_headers :: "(string \<times> string) list"
  req_params :: "(string \<times> string) list"

text \<open>
  A call either gets a response (a status and a body) or none at all (a network error).
  \<open>axios\<close> resolves on a status from 200 to 299 and throws on every other outcome.
\<close>

datatype 'd http_result = NoResponse | HttpResponse nat 'd

definition axios_ok :: "nat \<Rightarrow> bool" where
  "axios_ok status = (200 \<le> status \<and> status < 300)"

subsection \<open>\<open>POST /token\<close>\<close>

record token_body =
  code :: "string option"
  code_verifier :: "string option"

datatype 'd token_response = TokenJson 'd | TokenError nat string

definition token_request :: "server_env \<Rightarrow> token_body \<Rightarrow> provider_request" where
  "token_request env body =
     \<lparr> req_method = ''POST'',
       req_url = ''https://api.twitter.com/2/oauth2/token'',
       req_body = URLSearchParams_toString
          [(''grant_type'', ''authorization_code''),
           (''code'', str_of (code body)),
           (''redirect_uri'', or_default (REDIRECT_URI env) ''http://localhost:5174/callback''),
           (''code_verifier'', str_of (code_verifier body))],
       req_headers =
          [(''Content-Type'', ''application/x-www-form-urlencoded''),
           (''Authorization'', ''Basic '' @ btoa (encode_utf8
               (str_of (TWITTER_CLIENT_ID env) @ '':'' @ str_of (TWITTER_CLIENT_SECRET env))))],
       req_params = [] \<rparr>"

text \<open>
  The handler answers with the provider's body on success (\<open>res.json(response.data)\<close>);
  whatever is thrown inside \<open>try\<close> ends in the one \<open>catch\<close> block.
\<close>

definition token_handler ::
  "server_env \<Rightarrow> (provider_request \<Rightarrow> 'd http_result) \<Rightarrow> token_body \<Rightarrow> 'd token_response" where
  "token_handler env provider body =
     (if \<not> truthy (code body) \<or> \<not> truthy (code_verifier body) then
        TokenError 400 ''Code and code verifier are required''
      else
        (case provider (token_request env body) of
           NoResponse \<Rightarrow> TokenError 500 ''Failed to exchange token''
         | HttpResponse status d \<Rightarrow>
             if axios_ok status then TokenJson d
             else TokenError 500 ''Failed to exchange token''))"

subsection \<open>\<open>GET /user\<close>: fetch, serialize, hash, sign\<close>

text \<open>
  The signing key and the hash are external: \<open>sha256\<close> is
  \<open>crypto.createHash('sha256').update(s).digest()\<close>, \<open>key_sign\<close> is \<open>key.sign\<close> (the
  pair \<open>r\<close>, \<open>s\<close>), \<open>key_public\<close> the point of \<open>key.getPublic()\<close>.
\<close>

record authority_key =
  sha256 :: "string \<Rightarrow> byte list"
  key_sign :: "byte list \<Rightarrow> nat \<times> nat"
  key_public :: "nat \<times> nat"

record signedPayload =
  twitter_data :: json
  messageHash :: string
  signature_r :: string
  signature_s :: string
  publicKey_x :: string
  publicKey_y :: string

datatype user_response = UserJson signedPayload | UserError nat string

text \<open>Lines 110 to 126: the attestation over \<open>userData\<close>.\<close>

definition sign_user_data :: "authority_key \<Rightarrow> json \<Rightarrow> js_error + signedPayload" where
  "sign_user_data k userData =
     (case serializedData userData of
        Inl e \<Rightarrow> Inl e
      | Inr serialized \<Rightarrow>
          (let msgHash = sha256 k serialized;
               signature = key_sign k msgHash
           in Inr \<lparr> twitter_data = userData,
                    messageHash = buffer_hex msgHash,
                    signature_r = nat_toString16 (fst signature),
                    signature_s = nat_toString16 (snd signature),
                    publicKey_x = nat_toString16 (fst (key_public k)),
                    publicKey_y = nat_toString16 (snd (key_public k)) \<rparr>))"

text \<open>\<open>s.split(' ')\<close>: the pieces between single spaces; never an empty list.\<close>

fun split_space :: "string \<Rightarrow> string list" where
  "split_space [] = [[]]"
| "split_space (c # cs) =
     (if c = CHR '' '' then [] # split_space cs
      else (c # hd (split_space cs)) # tl (split_space cs))"

text \<open>
  \<open>response.data.data\<close>: reading a property of \<open>null\<close> throws; an object gives the
  property or \<open>undefined\<close> (\<open>None\<close>); any other value has no such property.
\<close>

fun response_data_data :: "json \<Rightarrow> js_error + json option" where
  "response_data_data JNull = Inl TypeError"
| "response_data_data (JObj kvs) = Inr (map_of kvs ''data'')"
| "response_data_data _ = Inr None"

definition user_request :: "string \<Rightarrow> provider_request" where
  "user_request token =
     \<lparr> req_method = ''GET'',
       req_url = ''https://api.twitter.com/2/users/me'',
       req_body = [],
       req_headers = [(''Authorization'', ''Bearer '' @ token),
                      (''Content-Type'', ''application/json'')],
       req_params = [(''user.fields'', ''created_at,public_metrics'')] \<rparr>"

text \<open>
  The handler. Its own 401 is for a header that does not start with \<open>Bearer \<close>. Everything
  thrown after that (\<open>axios\<close> on a status outside 200..299 or on no response, a read of
  \<open>null\<close>, \<open>Object.keys(undefined)\<close>) is caught by the one \<open>catch\<close> block.
\<close>

definition user_handler ::
  "authority_key \<Rightarrow> (provider_request \<Rightarrow> json http_result) \<Rightarrow> string option \<Rightarrow> user_response" where
  "user_handler k provider authorization =
     (case authorization of
        None \<Rightarrow> UserError 401 ''Invalid authorization header''
      | Some authHeader \<Rightarrow>
          if take 7 authHeader \<noteq> ''Bearer '' then UserError 401 ''Invalid authorization header''
          else
            (case provider (user_request (split_space authHeader ! 1)) of
               NoResponse \<Rightarrow> UserError 500 ''Failed to fetch or sign user data''
             | HttpResponse status body \<Rightarrow>
                 if \<not> axios_ok status then UserError 500 ''Failed to fetch or sign user data''
                 else
                   (case response_data_data body of
                      Inl e \<Rightarrow> UserError 500 ''Failed to fetch or sign user data''
                    | Inr None \<Rightarrow> UserError 500 ''Failed to fetch or sign user data''
                    | Inr (Some userData) \<Rightarrow>
                        (case sign_user_data k userData of
                           Inl e \<Rightarrow> UserError 500 ''Failed to fetch or sign user data''
                         | Inr signedPayload \<Rightarrow> UserJson signedPayload))))"

section \<open>The OAuth callback in the browser (\<open>AuthCallback.handleCallback\<close>)\<close>





text \<open>\<open>String(v)\<close> for a JSON value, as a template string and \<open>setItem\<close> apply it.\<close>

fun js_String :: "json \<Rightarrow> string"
  and js_String_element :: "json \<Rightarrow> string" where
  "js_String JNull = ''null''"
| "js_String (JBool b) = (if b then ''true'' else ''false'')"
| "js_String (JNum n) = show_int n"
| "js_String (JStr s) = s"
| "js_String (JArr xs) = join_comma (map js_String_element xs)"
| "js_String (JObj kvs) = ''[object Object]''"
| "js_String_element JNull = []"
| "js_String_element (JBool b) = js_String (JBool b)"
| "js_String_element (JNum n) = js_String (JNum n)"
| "js_String_element (JStr s) = js_String (JStr s)"
| "js_String_element (JArr xs) = js_String (JArr xs)"
| "js_String_element (JObj kvs) = js_String (JObj kvs)"





section \<open>The proof page (index.js)\<close>

subsection \<open>\<open>parseInt\<close>\<close>

text \<open>
  \<open>parseInt(s)\<close> with no radix: leading white space is skipped, a sign is read, a prefix
  \<open>0x\<close> selects base 16, and the longest run of digits is the number; with no digit the
  result is \<open>NaN\<close> (\<open>None\<close>). The result is the exact integer here (JavaScript rounds
  beyond 2^53, far from the values that matter below).
\<close>

definition is_white_space :: "char \<Rightarrow> bool" where
  "is_white_space c = ((of_char c :: nat) \<in> set [9, 10, 11, 12, 13, 32, 160])"

definition digit_value :: "char \<Rightarrow> nat" where
  "digit_value c =
     (let n = (of_char c :: nat) in
      if 48 \<le> n \<and> n \<le> 57 then n - 48
      else if 97 \<le> n \<and> n \<le> 122 then n - 87
      else if 65 \<le> n \<and> n \<le> 90 then n - 55
      else 36)"

definition parseInt :: "string \<Rightarrow> int option" where
  "parseInt inputString =
     (let s = dropWhile is_white_space inputString;
          negative = (take 1 s = ''-'');
          s1 = (if take 1 s = ''-'' \<or> take 1 s = ''+'' then drop 1 s else s);
          hex = (take 2 s1 = ''0x'' \<or> take 2 s1 = ''0X'');
          radix = (if hex then 16 else 10);
          s2 = (if hex then drop 2 s1 else s1);
          z = takeWhile (\<lambda>c. digit_value c < radix) s2;
          number = int (foldl (\<lambda>a c. a * radix + digit_value c) 0 z)
      in if z = [] then None else Some (if negative then - number else number))"

subsection \<open>The toolchain and the page\<close>

text \<open>
  The compiler, the executor, the prover and the verifier are external; each is a function
  whose result \<open>None\<close> stands for a rejected promise (an exception at the \<open>await\<close>).
  \<open>'p\<close> is the compiled program (what \<open>new Noir(program)\<close> and
  \<open>new UltraHonkBackend(program.bytecode)\<close> hold), \<open>'w\<close> the witness.
\<close>

record ('p, 'w) toolchain =
  getCircuit :: "'p option"
  execute :: "'p \<Rightarrow> int \<Rightarrow> 'w option"
  generateProof :: "'p \<Rightarrow> 'w \<Rightarrow> ProofData option"
  verifyProof :: "'p \<Rightarrow> ProofData \<Rightarrow> bool option"

text \<open>What \<open>showResult\<close> is called with: the message and the flag \<open>success\<close>.\<close>

datatype ui_message =
    PleaseEnterValidAge
  | GeneratingProof
  | SuccessVerified StoredProof
  | VerificationFailed
  | AnErrorOccurred
  | FailedToInitialize

text \<open>
  One click of the submit button starts one run of the asynchronous handler. The run stops
  at every \<open>await\<close>; what it waits for, with the values it holds, is its state. The call
  that is awaited has been made already: \<open>AwaitExecute n age\<close> is a pending
  \<open>noir.execute({ age })\<close> on the instance \<open>n\<close>.
\<close>

datatype ('p, 'w) run =
    AwaitInit int
  | AwaitExecute 'p int
  | AwaitProof 'p 'w
  | AwaitVerify 'p ProofData
  | Finished

text \<open>
  The page: the module variables \<open>noir\<close> and \<open>backend\<close>, the slot \<open>ageProof\<close> of
  \<open>localStorage\<close> (the object that is written there as JSON), the content of the result
  element, and the runs started so far. \<open>executor_calls\<close> lists the ages that
  \<open>noir.execute\<close> has been called with.
\<close>

record ('p, 'w) page =
  noir :: "'p option"
  backend :: "'p option"
  ageProof :: "StoredProof option"
  result_shown :: "(ui_message \<times> bool) option"
  runs :: "('p, 'w) run list"
  executor_calls :: "int list"

definition showResult :: "ui_message \<Rightarrow> bool \<Rightarrow> ('p, 'w) page \<Rightarrow> ('p, 'w) page" where
  "showResult message success s = s\<lparr>result_shown := Some (message, success)\<rparr>"

definition initializeNoir :: "('p, 'w) toolchain \<Rightarrow> ('p, 'w) page \<Rightarrow> ('p, 'w) page" where
  "initializeNoir tc s =
     (case getCircuit tc of
        None \<Rightarrow> showResult FailedToInitialize False s
      | Some program \<Rightarrow> s\<lparr>noir := Some program, backend := Some program\<rparr>)"

text \<open>The \<open>catch\<close> block of the handler.\<close>

definition caught :: "('p, 'w) page \<Rightarrow> ('p, 'w) page \<times> ('p, 'w) run" where
  "caught s = (showResult AnErrorOccurred False s, Finished)"

text \<open>
  From after the initialization check to the first \<open>await\<close> that follows: the progress
  message, and the call of \<open>noir.execute({ age })\<close> (on \<open>undefined\<close> it throws).
\<close>

definition start_execute :: "int \<Rightarrow> ('p, 'w) page \<Rightarrow> ('p, 'w) page \<times> ('p, 'w) run" where
  "start_execute age s =
     (let s1 = showResult GeneratingProof True s in
      case noir s1 of
        None \<Rightarrow> caught s1
      | Some n \<Rightarrow> (s1\<lparr>executor_calls := executor_calls s1 @ [age]\<rparr>, AwaitExecute n age))"

text \<open>
  The click: from the start of the handler to its first \<open>await\<close>. Between \<open>parseInt\<close> and
  the executor there is the \<open>isNaN\<close> test and nothing else.
\<close>

definition click :: "string \<Rightarrow> ('p, 'w) page \<Rightarrow> ('p, 'w) page" where
  "click ageInput_value s =
     (case parseInt ageInput_value of
        None \<Rightarrow> showResult PleaseEnterValidAge False s
      | Some age \<Rightarrow>
          if noir s = None \<or> backend s = None then s\<lparr>runs := runs s @ [AwaitInit age]\<rparr>
          else (let (s1, r) = start_execute age s in s1\<lparr>runs := runs s1 @ [r]\<rparr>))"

text \<open>
  A run goes on when the promise it waits for is settled: from one \<open>await\<close> to the next,
  or to the end of the handler. \<open>now\<close> is what \<open>Date.now()\<close> returns then.
\<close>

definition continue_run ::
  "('p, 'w) toolchain \<Rightarrow> int \<Rightarrow> ('p, 'w) run \<Rightarrow> ('p, 'w) page \<Rightarrow> ('p, 'w) page \<times> ('p, 'w) run" where
  "continue_run tc now r s =
     (case r of
        AwaitInit age \<Rightarrow> start_execute age (initializeNoir tc s)
      | AwaitExecute n age \<Rightarrow>
          (case execute tc n age of
             None \<Rightarrow> caught s
           | Some witness \<Rightarrow>
               (case backend s of
                  None \<Rightarrow> caught s
                | Some b \<Rightarrow> (s, AwaitProof b witness)))
      | AwaitProof b witness \<Rightarrow>
          (case generateProof tc b witness of
             None \<Rightarrow> caught s
           | Some proof \<Rightarrow>
               (case backend s of
                  None \<Rightarrow> caught s
                | Some b' \<Rightarrow> (s, AwaitVerify b' proof)))
      | AwaitVerify b proof \<Rightarrow>
          (case verifyProof tc b proof of
             None \<Rightarrow> caught s
           | Some isValid \<Rightarrow>
               if isValid then
                 (let proofData = serializeProof now proof in
                  (showResult (SuccessVerified proofData) True (s\<lparr>ageProof := Some proofData\<rparr>),
                   Finished))
               else (showResult VerificationFailed False s, Finished))
      | Finished \<Rightarrow> (s, Finished))"

definition resume :: "('p, 'w) toolchain \<Rightarrow> int \<Rightarrow> nat \<Rightarrow> ('p, 'w) page \<Rightarrow> ('p, 'w) page" where
  "resume tc now i s =
     (if i < length (runs s) then
        (let (s1, r) = continue_run tc now (runs s ! i) s in s1\<lparr>runs := (runs s1)[i := r]\<rparr>)
      else s)"

text \<open>
  What happens on the page, in the order in which the browser's event loop takes it: a
  click with the content of the age field, or the continuation of the run number \<open>i\<close>.
\<close>

datatype event = Click string | Resume nat int

fun step :: "('p, 'w) toolchain \<Rightarrow> ('p, 'w) page \<Rightarrow> event \<Rightarrow> ('p, 'w) page" where
  "step tc s (Click v) = click v s"
| "step tc s (Resume i now) = resume tc now i s"

definition run_events :: "('p, 'w) toolchain \<Rightarrow> ('p, 'w) page \<Rightarrow> event list \<Rightarrow> ('p, 'w) page" where
  "run_events tc s es = foldl (step tc) s es"

text \<open>
  One submission with nothing else in between: the click, then its run continued until
  it has finished (at most four continuations).
\<close>

definition submit :: "('p, 'w) toolchain \<Rightarrow> int \<Rightarrow> string \<Rightarrow> ('p, 'w) page \<Rightarrow> ('p, 'w) page" where
  "submit tc now v s =
     (let i = length (runs s)
      in run_events tc s [Click v, Resume i now, Resume i now, Resume i now, Resume i now])"

section \<open>Properties\<close>

subsection \<open>Round trip of a proof artifact\<close>

lemma deserialize_serialize_bytes:
  "proof_bytes (deserializeProof (serializeProof now a)) = proof_bytes a"
  by (simp add: deserializeProof_def serializeProof_def comp_def map_idI)

text \<open>
  Claim C4. An artifact of a successful run has a proof byte sequence and a
  \<open>publicInputs\<close> sequence; deserializing its serialized form gives the artifact back:
  the same bytes and the same public inputs.
\<close>

theorem C4_roundtrip:
  assumes "publicInputs a = Some xs"
  shows "deserializeProof (serializeProof now a) = a"
  using assms
  by (simp add: deserializeProof_def serializeProof_def or_empty_def comp_def map_idI)

theorem C4_roundtrip_witness:
  "deserializeProof (serializeProof 1700000000000
       \<lparr> proof_bytes = [0, 1, 127, 128, 255], publicInputs = Some [''0x12''] \<rparr>)
     = \<lparr> proof_bytes = [0, 1, 127, 128, 255], publicInputs = Some [''0x12''] \<rparr>"
  using C4_roundtrip [of "\<lparr> proof_bytes = [0, 1, 127, 128, 255], publicInputs = Some [''0x12''] \<rparr>"
      "[''0x12'']" 1700000000000]
  by simp

subsection \<open>The PKCE challenge is the unpadded base64url text of the hash\<close>


lemma unat_byte_lt: "unat (a :: byte) < 256"
  using unsigned_less [of a, where 'a = nat] by simp

lemma sextets_lt_64: "n \<in> set (sextets bs) \<Longrightarrow> n < 64"
proof (induction bs arbitrary: n rule: sextets.induct)
  case 1
  then show ?case by simp
next
  case (2 a)
  have "unat a < 256" by (rule unat_byte_lt)
  with 2 show ?case by auto
next
  case (3 a b)
  have "unat a < 256" "unat b < 256" by (rule unat_byte_lt)+
  with 3 show ?case by auto
next
  case (4 a b c rest)
  have "unat a < 256" "unat b < 256" "unat c < 256" by (rule unat_byte_lt)+
  with 4 show ?case by auto
qed

text \<open>The 6-bit groups that \<open>btoa\<close> computes byte by byte are the groups of the bit stream.\<close>

lemma groups_of_6_six:
  "groups_of_6 (d1 # d2 # d3 # d4 # d5 # d6 # ds) = [d1, d2, d3, d4, d5, d6] # groups_of_6 ds"
  by simp

lemma groups_of_6_four: "groups_of_6 [d1, d2, d3, d4] = [[d1, d2, d3, d4, 0, 0]]"
  by (simp add: numeral_eq_Suc)

lemma groups_of_6_two: "groups_of_6 [d1, d2] = [[d1, d2, 0, 0, 0, 0]]"
  by (simp add: numeral_eq_Suc)

lemma bits_value_6:
  "bits_value [d1, d2, d3, d4, d5, d6] = 32 * d1 + 16 * d2 + 8 * d3 + 4 * d4 + 2 * d5 + d6"
  by (simp add: bits_value_def)

lemma halve_step: "(x::nat) div k = 2 * (x div (k * 2)) + x div k mod 2"
  by (simp add: div_mult2_eq)

lemma mod_step: "(x::nat) = k * (x div k) + x mod k"
  by simp

lemma horner:
  fixes q0 :: nat
  assumes "q0 = 2 * q1 + b0" "q1 = 2 * q2 + b1" "q2 = 2 * q3 + b2" "q3 = 2 * q4 + b3"
    "q4 = 2 * q5 + b4" "q5 = 2 * q6 + b5" "q6 = 2 * q7 + b6" "q7 = 2 * q8 + b7" "q8 = 0"
    "q0 = 4 * q2 + m4" "q0 = 16 * q4 + m16" "q0 = 64 * q6 + m64"
  shows "32 * b7 + 16 * b6 + 8 * b5 + 4 * b4 + 2 * b3 + b2 = q2"
    and "32 * b1 + 16 * b0 = m4 * 16"
    and "8 * b7 + 4 * b6 + 2 * b5 + b4 = q4"
    and "32 * b3 + 16 * b2 + 8 * b1 + 4 * b0 = m16 * 4"
    and "2 * b7 + b6 = q6"
    and "32 * b5 + 16 * b4 + 8 * b3 + 4 * b2 + 2 * b1 + b0 = m64"
  using assms by linarith+

lemma byte_digits:
  fixes x :: nat
  assumes "x < 256"
  shows "32 * (x div 128 mod 2) + 16 * (x div 64 mod 2) + 8 * (x div 32 mod 2)
           + 4 * (x div 16 mod 2) + 2 * (x div 8 mod 2) + x div 4 mod 2 = x div 4"
    and "32 * (x div 2 mod 2) + 16 * (x mod 2) = x mod 4 * 16"
    and "8 * (x div 128 mod 2) + 4 * (x div 64 mod 2) + 2 * (x div 32 mod 2) + x div 16 mod 2
           = x div 16"
    and "32 * (x div 8 mod 2) + 16 * (x div 4 mod 2) + 8 * (x div 2 mod 2) + 4 * (x mod 2)
           = x mod 16 * 4"
    and "2 * (x div 128 mod 2) + x div 64 mod 2 = x div 64"
    and "32 * (x div 32 mod 2) + 16 * (x div 16 mod 2) + 8 * (x div 8 mod 2)
           + 4 * (x div 4 mod 2) + 2 * (x div 2 mod 2) + x mod 2 = x mod 64"
proof -
  have s0: "x = 2 * (x div 2) + x mod 2" by simp
  have s1: "x div 2 = 2 * (x div 4) + x div 2 mod 2" using halve_step [of x 2] by simp
  have s2: "x div 4 = 2 * (x div 8) + x div 4 mod 2" using halve_step [of x 4] by simp
  have s3: "x div 8 = 2 * (x div 16) + x div 8 mod 2" using halve_step [of x 8] by simp
  have s4: "x div 16 = 2 * (x div 32) + x div 16 mod 2" using halve_step [of x 16] by simp
  have s5: "x div 32 = 2 * (x div 64) + x div 32 mod 2" using halve_step [of x 32] by simp
  have s6: "x div 64 = 2 * (x div 128) + x div 64 mod 2" using halve_step [of x 64] by simp
  have s7: "x div 128 = 2 * (x div 256) + x div 128 mod 2" using halve_step [of x 128] by simp
  have s8: "x div 256 = 0" using assms by simp
  have m4: "x = 4 * (x div 4) + x mod 4" by simp
  have m16: "x = 16 * (x div 16) + x mod 16" by simp
  have m64: "x = 64 * (x div 64) + x mod 64" by simp
  note h = horner [OF s0 s1 s2 s3 s4 s5 s6 s7 s8 m4 m16 m64]
  show "32 * (x div 128 mod 2) + 16 * (x div 64 mod 2) + 8 * (x div 32 mod 2)
           + 4 * (x div 16 mod 2) + 2 * (x div 8 mod 2) + x div 4 mod 2 = x div 4"
    by (rule h(1))
  show "32 * (x div 2 mod 2) + 16 * (x mod 2) = x mod 4 * 16" by (rule h(2))
  show "8 * (x div 128 mod 2) + 4 * (x div 64 mod 2) + 2 * (x div 32 mod 2) + x div 16 mod 2
           = x div 16" by (rule h(3))
  show "32 * (x div 8 mod 2) + 16 * (x div 4 mod 2) + 8 * (x div 2 mod 2) + 4 * (x mod 2)
           = x mod 16 * 4" by (rule h(4))
  show "2 * (x div 128 mod 2) + x div 64 mod 2 = x div 64" by (rule h(5))
  show "32 * (x div 32 mod 2) + 16 * (x div 16 mod 2) + 8 * (x div 8 mod 2)
           + 4 * (x div 4 mod 2) + 2 * (x div 2 mod 2) + x mod 2 = x mod 64" by (rule h(6))
qed


lemma bits_value_2_4:
  "bits_value [d1, d2, d3, d4, d5, d6] = (32 * d1 + 16 * d2) + (8 * d3 + 4 * d4 + 2 * d5 + d6)"
  by (simp add: bits_value_def)

lemma bits_value_4_2:
  "bits_value [d1, d2, d3, d4, d5, d6] = (32 * d1 + 16 * d2 + 8 * d3 + 4 * d4) + (2 * d5 + d6)"
  by (simp add: bits_value_def)

lemma bits_value_2_pad: "bits_value [d1, d2, 0, 0, 0, 0] = 32 * d1 + 16 * d2"
  by (simp add: bits_value_def)

lemma bits_value_4_pad: "bits_value [d1, d2, d3, d4, 0, 0] = 32 * d1 + 16 * d2 + 8 * d3 + 4 * d4"
  by (simp add: bits_value_def)

lemma groups_one_byte:
  assumes "x < 256"
  shows "map bits_value (groups_of_6 (nat_bits8 x)) = [x div 4, x mod 4 * 16]"
proof -
  have e: "groups_of_6 (nat_bits8 x)
      = [[x div 128 mod 2, x div 64 mod 2, x div 32 mod 2, x div 16 mod 2, x div 8 mod 2,
          x div 4 mod 2],
         [x div 2 mod 2, x mod 2, 0, 0, 0, 0]]"
    by (simp only: nat_bits8_def groups_of_6_six groups_of_6_two)
  have g1: "bits_value [x div 128 mod 2, x div 64 mod 2, x div 32 mod 2, x div 16 mod 2,
      x div 8 mod 2, x div 4 mod 2] = x div 4"
    by (simp only: bits_value_6 byte_digits(1) [OF assms])
  have g2: "bits_value [x div 2 mod 2, x mod 2, 0, 0, 0, 0] = x mod 4 * 16"
    by (simp only: bits_value_2_pad byte_digits(2) [OF assms])
  show ?thesis
    by (simp only: e list.map g1 g2)
qed

lemma groups_two_bytes:
  assumes "x < 256" "y < 256"
  shows "map bits_value (groups_of_6 (nat_bits8 x @ nat_bits8 y))
         = [x div 4, x mod 4 * 16 + y div 16, y mod 16 * 4]"
proof -
  have e: "groups_of_6 (nat_bits8 x @ nat_bits8 y)
      = [[x div 128 mod 2, x div 64 mod 2, x div 32 mod 2, x div 16 mod 2, x div 8 mod 2,
          x div 4 mod 2],
         [x div 2 mod 2, x mod 2, y div 128 mod 2, y div 64 mod 2, y div 32 mod 2,
          y div 16 mod 2],
         [y div 8 mod 2, y div 4 mod 2, y div 2 mod 2, y mod 2, 0, 0]]"
    by (simp only: nat_bits8_def append_Cons append_Nil groups_of_6_six groups_of_6_four)
  have g1: "bits_value [x div 128 mod 2, x div 64 mod 2, x div 32 mod 2, x div 16 mod 2,
      x div 8 mod 2, x div 4 mod 2] = x div 4"
    by (simp only: bits_value_6 byte_digits(1) [OF assms(1)])
  have g2: "bits_value [x div 2 mod 2, x mod 2, y div 128 mod 2, y div 64 mod 2,
      y div 32 mod 2, y div 16 mod 2] = x mod 4 * 16 + y div 16"
    by (simp only: bits_value_2_4 byte_digits(2) [OF assms(1)] byte_digits(3) [OF assms(2)])
  have g3: "bits_value [y div 8 mod 2, y div 4 mod 2, y div 2 mod 2, y mod 2, 0, 0]
      = y mod 16 * 4"
    by (simp only: bits_value_4_pad byte_digits(4) [OF assms(2)])
  show ?thesis
    by (simp only: e list.map g1 g2 g3)
qed

lemma groups_three_bytes:
  assumes "x < 256" "y < 256" "z < 256"
  shows "map bits_value (groups_of_6 (nat_bits8 x @ nat_bits8 y @ nat_bits8 z @ rest))
         = [x div 4, x mod 4 * 16 + y div 16, y mod 16 * 4 + z div 64, z mod 64]
             @ map bits_value (groups_of_6 rest)"
proof -
  have e: "groups_of_6 (nat_bits8 x @ nat_bits8 y @ nat_bits8 z @ rest)
      = [[x div 128 mod 2, x div 64 mod 2, x div 32 mod 2, x div 16 mod 2, x div 8 mod 2,
          x div 4 mod 2],
         [x div 2 mod 2, x mod 2, y div 128 mod 2, y div 64 mod 2, y div 32 mod 2,
          y div 16 mod 2],
         [y div 8 mod 2, y div 4 mod 2, y div 2 mod 2, y mod 2, z div 128 mod 2,
          z div 64 mod 2],
         [z div 32 mod 2, z div 16 mod 2, z div 8 mod 2, z div 4 mod 2, z div 2 mod 2,
          z mod 2]] @ groups_of_6 rest"
    by (simp only: nat_bits8_def append_Cons append_Nil groups_of_6_six)
  have g1: "bits_value [x div 128 mod 2, x div 64 mod 2, x div 32 mod 2, x div 16 mod 2,
      x div 8 mod 2, x div 4 mod 2] = x div 4"
    by (simp only: bits_value_6 byte_digits(1) [OF assms(1)])
  have g2: "bits_value [x div 2 mod 2, x mod 2, y div 128 mod 2, y div 64 mod 2,
      y div 32 mod 2, y div 16 mod 2] = x mod 4 * 16 + y div 16"
    by (simp only: bits_value_2_4 byte_digits(2) [OF assms(1)] byte_digits(3) [OF assms(2)])
  have g3: "bits_value [y div 8 mod 2, y div 4 mod 2, y div 2 mod 2, y mod 2,
      z div 128 mod 2, z div 64 mod 2] = y mod 16 * 4 + z div 64"
    by (simp only: bits_value_4_2 byte_digits(4) [OF assms(2)] byte_digits(5) [OF assms(3)])
  have g4: "bits_value [z div 32 mod 2, z div 16 mod 2, z div 8 mod 2, z div 4 mod 2,
      z div 2 mod 2, z mod 2] = z mod 64"
    by (simp only: bits_value_6 byte_digits(6) [OF assms(3)])
  show ?thesis
    by (simp only: e list.map map_append g1 g2 g3 g4)
qed

lemma sextets_are_bit_groups:
  "map bits_value (groups_of_6 (concat (map byte_bits bs))) = sextets bs"
proof (induction bs rule: sextets.induct)
  case 1
  show ?case by simp
next
  case (2 a)
  show ?case
    using groups_one_byte [OF unat_byte_lt [of a]] by (simp add: byte_bits_def)
next
  case (3 a b)
  show ?case
    using groups_two_bytes [OF unat_byte_lt [of a] unat_byte_lt [of b]]
    by (simp add: byte_bits_def)
next
  case (4 a b c rest)
  show ?case
    using groups_three_bytes [OF unat_byte_lt [of a] unat_byte_lt [of b] unat_byte_lt [of c],
        of "concat (map byte_bits rest)"] "4.IH"
    by (simp add: byte_bits_def [abs_def])
qed


lemma alphabet_replaced:
  "map (\<lambda>c. if c = CHR ''/'' then CHR ''_'' else c)
     (map (\<lambda>c. if c = CHR ''+'' then CHR ''-'' else c) base64_alphabet) = base64url_alphabet"
  by (simp add: base64_alphabet_def base64url_alphabet_def)

lemma length_base64_alphabet: "length base64_alphabet = 64"
  by (simp add: base64_alphabet_def)

lemma eq_notin_base64url_alphabet: "CHR ''='' \<notin> set base64url_alphabet"
  by (simp add: base64url_alphabet_def)

lemma replaced_char:
  assumes "n < 64"
  shows "(if (if base64_alphabet ! n = CHR ''+'' then CHR ''-'' else base64_alphabet ! n) = CHR ''/''
          then CHR ''_''
          else (if base64_alphabet ! n = CHR ''+'' then CHR ''-'' else base64_alphabet ! n))
         = base64url_alphabet ! n"
proof -
  have "n < length base64_alphabet" using assms by (simp add: length_base64_alphabet)
  then have "map (\<lambda>c. if c = CHR ''/'' then CHR ''_'' else c)
     (map (\<lambda>c. if c = CHR ''+'' then CHR ''-'' else c) base64_alphabet) ! n
     = (\<lambda>c. if c = CHR ''/'' then CHR ''_'' else c) ((\<lambda>c. if c = CHR ''+'' then CHR ''-'' else c) (base64_alphabet ! n))"
    by simp
  then show ?thesis by (simp only: alphabet_replaced)
qed

lemma strip_trailing_eq_append:
  assumes "CHR ''='' \<notin> set xs"
  shows "strip_trailing_eq (xs @ replicate k CHR ''='') = xs"
proof -
  have "dropWhile (\<lambda>c. c = CHR ''='') (rev xs) = rev xs"
    using assms by (cases "rev xs") (auto simp: )
  moreover have "dropWhile (\<lambda>c. c = CHR ''='') (replicate k CHR ''='' @ rev xs)
      = dropWhile (\<lambda>c. c = CHR ''='') (rev xs)"
    by (induction k) simp_all
  ultimately show ?thesis by (simp add: strip_trailing_eq_def)
qed

lemma base64url_unpadded_sextets:
  "base64url_unpadded bs = map (\<lambda>n. base64url_alphabet ! n) (sextets bs)"
proof -
  have "map (\<lambda>g. base64url_alphabet ! bits_value g) (groups_of_6 (concat (map byte_bits bs)))
      = map (\<lambda>n. base64url_alphabet ! n)
          (map bits_value (groups_of_6 (concat (map byte_bits bs))))"
    by (simp add: comp_def)
  then show ?thesis
    by (simp only: base64url_unpadded_def sextets_are_bit_groups)
qed

lemma btoa_replaced:
  "strip_trailing_eq (replace_slash (replace_plus (btoa bs))) = base64url_unpadded bs"
proof -
  let ?url = "map (\<lambda>n. base64url_alphabet ! n) (sextets bs)"
  have body: "map (\<lambda>n. (if (if base64_alphabet ! n = CHR ''+'' then CHR ''-'' else base64_alphabet ! n) = CHR ''/''
          then CHR ''_''
          else (if base64_alphabet ! n = CHR ''+'' then CHR ''-'' else base64_alphabet ! n))) (sextets bs) = ?url"
    by (rule map_cong [OF refl]) (simp only: replaced_char [OF sextets_lt_64])
  have "replace_slash (replace_plus (btoa bs))
      = ?url @ replicate ((3 - length bs mod 3) mod 3) CHR ''=''"
    using body by (simp add: replace_slash_def replace_plus_def btoa_def comp_def)
  moreover have "CHR ''='' \<notin> set ?url"
  proof
    assume "CHR ''='' \<in> set ?url"
    then obtain n where n: "n \<in> set (sextets bs)" and e: "base64url_alphabet ! n = CHR ''=''" by auto
    have "n < length base64url_alphabet"
      using sextets_lt_64 [OF n] by (simp add: base64url_alphabet_def)
    then have "base64url_alphabet ! n \<in> set base64url_alphabet" by (rule nth_mem)
    with e eq_notin_base64url_alphabet show False by simp
  qed
  ultimately show ?thesis
    by (simp add: strip_trailing_eq_append base64url_unpadded_sextets)
qed


text \<open>
  Claim C5. Every session that a login begins carries a challenge equal to the unpadded
  base64url encoding of the SHA-256 hash of its verifier (the hash function and the random
  bytes are arbitrary).
\<close>

theorem C5_challenge_is_base64url_of_hash:
  "session_challenge (begin_login digest array uuid)
     = base64url_unpadded (digest (encode_utf8 (session_verifier (begin_login digest array uuid))))"
  by (simp add: begin_login_def generatePKCEChallenge_def Let_def btoa_replaced)

theorem C5_challenge_witness:
  "session_challenge (begin_login (take 4) [0, 15, 16, 255] ''2f1c'') = ''MDAwZg''"
  by (subst C5_challenge_is_base64url_of_hash)
     (simp add: begin_login_def generatePKCEChallenge_def Let_def padStart2_def toString16_def
        hex_digit_def encode_utf8_def base64url_unpadded_sextets base64url_alphabet_def)

subsection \<open>The serialization does not depend on the order of the keys\<close>

lemma map_of_mset_eq:
  assumes "mset xs = mset ys" "distinct (map fst ys)"
  shows "map_of xs = map_of ys"
proof -
  have "mset (map fst xs) = mset (map fst ys)" using assms(1) by simp
  then have "distinct (map fst xs)" using assms(2) by (metis mset_eq_imp_distinct_iff)
  moreover have "set xs = set ys" using assms(1) by (rule mset_eq_setD)
  ultimately show ?thesis using assms(2) by (simp add: map_of_inject_set)
qed

lemma sort_mset_eq: "mset xs = mset ys \<Longrightarrow> sort xs = sort (ys :: 'a::linorder list)"
  by (rule properties_for_sort) simp_all

lemma key_permuted_stringify:
  "key_permuted v w \<Longrightarrow> wf_json v \<Longrightarrow> stringify_with K v = stringify_with K w"
proof (induction rule: key_permuted.induct)
  case (kp_arr xs ys)
  then have "map (stringify_with K) xs = map (stringify_with K) ys"
    by (induction xs ys rule: list_all2_induct) auto
  then show ?case by simp
next
  case (kp_obj kvs kvs' kvs'')
  let ?f = "\<lambda>kv. (fst kv, stringify_with K (snd kv))"
  from kp_obj.IH kp_obj.prems
  have m: "map ?f kvs = map ?f kvs'"
    by (induction kvs kvs' rule: list_all2_induct) auto
  have d: "distinct (map fst (map ?f kvs'))"
    using kp_obj.prems m [symmetric] by (simp add: comp_def)
  have "mset (map ?f kvs'') = mset (map ?f kvs')"
    using kp_obj.hyps by (metis mset_map)
  then have "map_of (map ?f kvs'') = map_of (map ?f kvs')"
    using d by (rule map_of_mset_eq)
  then show ?case using m by simp
qed simp_all

lemma key_permuted_keys:
  assumes "key_permuted v w"
  shows "map_sum id sort (Object_keys v) = map_sum id sort (Object_keys w)"
  using assms
proof (cases rule: key_permuted.cases)
  case (kp_arr xs ys)
  then show ?thesis by (simp add: list_all2_lengthD)
next
  case (kp_obj kvs kvs' kvs'')
  have "map fst kvs = map fst kvs'" using kp_obj(3)
    by (induction kvs kvs' rule: list_all2_induct) auto
  moreover have "mset (map fst kvs'') = mset (map fst kvs')" using kp_obj(4) by simp
  ultimately show ?thesis using kp_obj(1,2) by (simp add: sort_mset_eq)
qed simp_all

lemma serializedData_key_permuted:
  assumes "key_permuted v w" "wf_json v"
  shows "serializedData v = serializedData w"
proof -
  from key_permuted_keys [OF assms(1)]
  show ?thesis
    using key_permuted_stringify [OF assms]
    by (cases "Object_keys v"; cases "Object_keys w") (simp_all add: serializedData_def)
qed

text \<open>
  The serialization is the plain text of the canonical form, and in the canonical form
  for a sorted list of names every object has its names in ascending order.
\<close>

lemma map_of_map_snd:
  "map_of (map (\<lambda>kv. (fst kv, f (snd kv))) kvs) k = map_option f (map_of kvs k)"
  by (induction kvs) auto

lemma stringify_with_canonical:
  "stringify_with K v = stringify (canonical_form K v)"
proof (induction K v rule: canonical_form.induct)
  case (1 K xs)
  then show ?case by (simp cong: map_cong)
next
  case (2 K kvs)
  have "\<And>k v. map_of kvs k = Some v \<Longrightarrow> stringify_with K v = stringify (canonical_form K v)"
    using 2 by (auto dest!: map_of_SomeD)
  then have "\<And>J. List.map_filter
           (\<lambda>k. case map_of (map (\<lambda>kv. (fst kv, stringify_with K (snd kv))) kvs) k of
                  None \<Rightarrow> None
                | Some s \<Rightarrow> Some (QuoteJSONString k @ '':'' @ s)) J
       = map (\<lambda>kv. QuoteJSONString (fst kv) @ '':'' @ stringify (snd kv))
           (List.map_filter
              (\<lambda>k. case map_of (map (\<lambda>kv. (fst kv, canonical_form K (snd kv))) kvs) k of
                     None \<Rightarrow> None
                   | Some c \<Rightarrow> Some (k, c)) J)"
  proof -
    fix J
    assume h: "\<And>k v. map_of kvs k = Some v \<Longrightarrow> stringify_with K v = stringify (canonical_form K v)"
    show "?thesis J"
      by (induction J) (auto simp: List.map_filter_simps map_of_map_snd h split: option.splits)
  qed
  then show ?case by simp
qed simp_all

lemma keys_of_map_filter:
  "map fst (List.map_filter (\<lambda>k. case m k of None \<Rightarrow> None | Some c \<Rightarrow> Some (k, c)) K)
     = filter (\<lambda>k. m k \<noteq> None) K"
  by (induction K) (auto simp: List.map_filter_simps split: option.splits)

lemma canonical_form_keys_ascending:
  "sorted K \<Longrightarrow> distinct K \<Longrightarrow> keys_ascending (canonical_form K v)"
proof (induction K v rule: canonical_form.induct)
  case (1 K xs)
  then show ?case by (simp add: list_all_iff)
next
  case (2 K kvs)
  let ?m = "map_of (map (\<lambda>kv. (fst kv, canonical_form K (snd kv))) kvs)"
  have v: "\<And>k c. ?m k = Some c \<Longrightarrow> keys_ascending c"
    using 2 by (auto simp: map_of_map_snd dest!: map_of_SomeD)
  have "list_all (\<lambda>kv. keys_ascending (snd kv))
     (List.map_filter (\<lambda>k. case ?m k of None \<Rightarrow> None | Some c \<Rightarrow> Some (k, c)) J)" for J
    by (induction J) (auto simp: List.map_filter_simps v split: option.splits)
  then have l: "list_all (\<lambda>kv. keys_ascending (snd kv))
     (List.map_filter (\<lambda>k. case ?m k of None \<Rightarrow> None | Some c \<Rightarrow> Some (k, c)) K)" .
  have s: "sorted (filter (\<lambda>k. ?m k \<noteq> None) K)"
    using "2.prems"(1) by (rule sorted_wrt_filter)
  have d: "distinct (filter (\<lambda>k. ?m k \<noteq> None) K)"
    using "2.prems"(2) by (rule distinct_filter)
  show ?case
    unfolding canonical_form.simps keys_ascending.simps keys_of_map_filter
    using s d l by blast
qed simp_all

lemma serializedData_canonical:
  "serializedData (JObj kvs)
     = Inr (stringify (canonical_form (remdups (sort (map fst kvs))) (JObj kvs)))"
  by (simp only: serializedData_def Object_keys.simps sum.case stringify_with_canonical)

lemma serializedData_keys_ascending:
  "keys_ascending (canonical_form (remdups (sort (map fst kvs))) (JObj kvs))"
  by (rule canonical_form_keys_ascending) (simp_all add: sorted_remdups)


text \<open>
  The order of the keys does not matter to the signer: for a payload (an object whose
  objects hold every name once) and a key permutation of it, at any depth, the text, the
  digest and the signature are the same. The text is that of the canonical form of the
  payload for its sorted top-level names.
\<close>

lemma sign_user_data_order_independent:
  assumes "key_permuted (JObj kvs) Q" and "wf_json (JObj kvs)"
  shows "serializedData (JObj kvs)
           = Inr (stringify (canonical_form (remdups (sort (map fst kvs))) (JObj kvs)))"
    and "serializedData Q = serializedData (JObj kvs)"
    and "map_sum id messageHash (sign_user_data k Q)
           = map_sum id messageHash (sign_user_data k (JObj kvs))"
    and "map_sum id signature_r (sign_user_data k Q)
           = map_sum id signature_r (sign_user_data k (JObj kvs))"
    and "map_sum id signature_s (sign_user_data k Q)
           = map_sum id signature_s (sign_user_data k (JObj kvs))"
proof -
  show "serializedData (JObj kvs)
           = Inr (stringify (canonical_form (remdups (sort (map fst kvs))) (JObj kvs)))"
    by (rule serializedData_canonical)
  show e: "serializedData Q = serializedData (JObj kvs)"
    using serializedData_key_permuted [OF assms] by simp
  show "map_sum id messageHash (sign_user_data k Q)
           = map_sum id messageHash (sign_user_data k (JObj kvs))"
    by (simp add: sign_user_data_def e Let_def split: sum.split)
  show "map_sum id signature_r (sign_user_data k Q)
           = map_sum id signature_r (sign_user_data k (JObj kvs))"
    by (simp add: sign_user_data_def e Let_def split: sum.split)
  show "map_sum id signature_s (sign_user_data k Q)
           = map_sum id signature_s (sign_user_data k (JObj kvs))"
    by (simp add: sign_user_data_def e Let_def split: sum.split)
qed

text \<open>
  The canonical form is not the payload with its keys sorted at every depth. The names of
  a nested object that are not also top-level names are left out of it, so the text, and
  with it the digest, is the same for payloads that differ in such a nested value.
\<close>

lemma serializedData_nested_names_filtered:
  "serializedData (JObj [(''id'', JStr ''1''),
       (''public_metrics'', JObj [(''followers_count'', JNum 5)])])
   = serializedData (JObj [(''id'', JStr ''1''),
       (''public_metrics'', JObj [(''followers_count'', JNum 9000)])])"
  by (simp add: serializedData_def List.map_filter_def)

lemma sign_user_data_same_text:
  "serializedData P = serializedData Q \<Longrightarrow>
     map_sum id messageHash (sign_user_data k P) = map_sum id messageHash (sign_user_data k Q)"
  by (simp add: sign_user_data_def Let_def split: sum.split)

text \<open>
  Claim C1 at the payload \<open>{id: "1", public_metrics: {tweet_count: 2, followers_count: 5}}\<close>.
  The claim has the signer canonicalize by sorting the keys of every object, at every
  depth, which gives \<open>{id: "1", public_metrics: {followers_count: 5, tweet_count: 2}}\<close>.
  The signer's text is another one: that of \<open>{id: "1", public_metrics: {}}\<close>. The keys of
  \<open>public_metrics\<close> are not sorted but dropped, and a payload with other counts has the
  same text and the same digest, for every hash function and every key.
\<close>

theorem C1_nested_keys_dropped_not_sorted:
  "spec_sort_keys
      (JObj [(''id'', JStr ''1''),
             (''public_metrics'', JObj [(''tweet_count'', JNum 2), (''followers_count'', JNum 5)])])
     = JObj [(''id'', JStr ''1''),
             (''public_metrics'', JObj [(''followers_count'', JNum 5), (''tweet_count'', JNum 2)])]
   \<and> serializedData
      (JObj [(''id'', JStr ''1''),
             (''public_metrics'', JObj [(''tweet_count'', JNum 2), (''followers_count'', JNum 5)])])
     = Inr (stringify (JObj [(''id'', JStr ''1''), (''public_metrics'', JObj [])]))
   \<and> serializedData
      (JObj [(''id'', JStr ''1''),
             (''public_metrics'', JObj [(''tweet_count'', JNum 2), (''followers_count'', JNum 5)])])
     \<noteq> Inr (stringify (spec_sort_keys
          (JObj [(''id'', JStr ''1''),
                 (''public_metrics'', JObj [(''tweet_count'', JNum 2), (''followers_count'', JNum 5)])])))
   \<and> (\<forall>k. map_sum id messageHash (sign_user_data k
          (JObj [(''id'', JStr ''1''),
                 (''public_metrics'', JObj [(''tweet_count'', JNum 2), (''followers_count'', JNum 5)])]))
        = map_sum id messageHash (sign_user_data k
          (JObj [(''id'', JStr ''1''),
                 (''public_metrics'', JObj [(''tweet_count'', JNum 9000), (''followers_count'', JNum 1)])])))"
proof -
  let ?P = "JObj [(''id'', JStr ''1''),
             (''public_metrics'', JObj [(''tweet_count'', JNum 2), (''followers_count'', JNum 5)])]"
  let ?P' = "JObj [(''id'', JStr ''1''),
             (''public_metrics'', JObj [(''tweet_count'', JNum 9000), (''followers_count'', JNum 1)])]"
  let ?S = "JObj [(''id'', JStr ''1''),
             (''public_metrics'', JObj [(''followers_count'', JNum 5), (''tweet_count'', JNum 2)])]"
  let ?E = "JObj [(''id'', JStr ''1''), (''public_metrics'', JObj [])]"
  have sorted_form: "spec_sort_keys ?P = ?S"
    by code_simp
  have code_text: "serializedData ?P = Inr (stringify ?E)"
    by code_simp
  have len: "length (stringify ?E) < length (stringify ?S)"
    by code_simp
  have "stringify ?E \<noteq> stringify ?S"
  proof
    assume "stringify ?E = stringify ?S"
    then have "length (stringify ?E) = length (stringify ?S)" by (rule arg_cong)
    with len show False by (simp only: less_irrefl)
  qed
  then have ne: "Inr (stringify ?E) \<noteq> (Inr (stringify ?S) :: js_error + string)"
    by (simp only: sum.inject not_False_eq_True)
  have differ: "serializedData ?P \<noteq> Inr (stringify (spec_sort_keys ?P))"
    unfolding code_text sorted_form by (rule ne)
  have same: "serializedData ?P = serializedData ?P'"
    by (simp add: serializedData_def List.map_filter_def)
  have digest: "\<forall>k. map_sum id messageHash (sign_user_data k ?P)
        = map_sum id messageHash (sign_user_data k ?P')"
    using sign_user_data_same_text [OF same] by (rule allI)
  show ?thesis
    by (intro conjI sorted_form code_text differ digest)
qed

subsection \<open>\<open>POST /auth\<close> without a state\<close>









subsection \<open>\<open>POST /token\<close> when the provider refuses\<close>

text \<open>
  Claim C7, as the code has it. When the provider answers with a status outside 200..299,
  the handler answers 500 with the fixed message \<open>Failed to exchange token\<close>, whatever the
  provider's status and error body were, and returns no token. A token body comes out of
  the handler only as the body of a provider response with a status in 200..299.
\<close>

theorem C7_token_exchange_rejected:
  assumes "truthy (code body)" and "truthy (code_verifier body)"
    and "provider (token_request env body) = HttpResponse status d"
    and "\<not> axios_ok status"
  shows "token_handler env provider body = TokenError 500 ''Failed to exchange token''
         \<and> (\<forall>t. token_handler env provider body \<noteq> TokenJson t)"
  using assms by (simp add: token_handler_def)

theorem C7_token_exchange_rejected_witness:
  "token_handler
     \<lparr> TWITTER_CLIENT_ID = Some ''cid'', TWITTER_CLIENT_SECRET = Some ''sec'', REDIRECT_URI = None \<rparr>
     (\<lambda>r. HttpResponse 400 ''invalid_grant'')
     \<lparr> code = Some ''c1'', code_verifier = Some ''v1'' \<rparr>
   = TokenError 500 ''Failed to exchange token''"
  using C7_token_exchange_rejected
    [of "\<lparr> code = Some ''c1'', code_verifier = Some ''v1'' \<rparr>"
        "\<lambda>r. HttpResponse 400 ''invalid_grant''"
        "\<lparr> TWITTER_CLIENT_ID = Some ''cid'', TWITTER_CLIENT_SECRET = Some ''sec'', REDIRECT_URI = None \<rparr>"
        400 "''invalid_grant''"]
  by (simp add: truthy_def axios_ok_def)

text \<open>
  The claim as it is written fails: the provider refuses once with 400 and the error code
  \<open>invalid_grant\<close>, once with 401 and \<open>invalid_client\<close>, and the handler's two answers are
  the same fixed 500 message. The answer does not carry the provider's error code.
\<close>

theorem C7_provider_error_code_not_carried:
  "token_handler
     \<lparr> TWITTER_CLIENT_ID = Some ''cid'', TWITTER_CLIENT_SECRET = Some ''sec'', REDIRECT_URI = None \<rparr>
     (\<lambda>r. HttpResponse 400 ''invalid_grant'')
     \<lparr> code = Some ''c1'', code_verifier = Some ''v1'' \<rparr>
   = TokenError 500 ''Failed to exchange token''
   \<and> token_handler
     \<lparr> TWITTER_CLIENT_ID = Some ''cid'', TWITTER_CLIENT_SECRET = Some ''sec'', REDIRECT_URI = None \<rparr>
     (\<lambda>r. HttpResponse 401 ''invalid_client'')
     \<lparr> code = Some ''c1'', code_verifier = Some ''v1'' \<rparr>
   = TokenError 500 ''Failed to exchange token''"
  by (simp add: token_handler_def truthy_def axios_ok_def)

subsection \<open>\<open>GET /user\<close> when the provider refuses\<close>

text \<open>
  Claim C8, as the code has it. For a request whose header starts with \<open>Bearer \<close>, every
  provider response with a status outside 200..299, 401 as well as 503, gets the same
  answer: 500 with the message \<open>Failed to fetch or sign user data\<close>. The handler answers
  401 when the request has no header that starts with \<open>Bearer \<close>, and only then: the
  provider is not asked in that case.
\<close>

theorem C8_provider_failures_alike:
  "(take 7 authHeader = ''Bearer ''
      \<and> provider (user_request (split_space authHeader ! 1)) = HttpResponse status body
      \<and> \<not> axios_ok status \<longrightarrow>
      user_handler k provider (Some authHeader)
        = UserError 500 ''Failed to fetch or sign user data'')
   \<and> (take 7 authHeader \<noteq> ''Bearer '' \<longrightarrow>
      user_handler k provider (Some authHeader) = UserError 401 ''Invalid authorization header'')
   \<and> user_handler k provider None = UserError 401 ''Invalid authorization header''
   \<and> (user_handler k provider (Some authHeader) = UserError 401 message \<longrightarrow>
      take 7 authHeader \<noteq> ''Bearer '')"
  by (simp add: user_handler_def split: http_result.split sum.split option.split)

theorem C8_provider_failures_alike_witness:
  "user_handler
     \<lparr> sha256 = (\<lambda>t. map of_char (take 4 t)), key_sign = (\<lambda>h. (length h, 7)),
       key_public = (1, 2) \<rparr>
     (\<lambda>r. HttpResponse 401 (JObj [(''title'', JStr ''Unauthorized'')]))
     (Some ''Bearer expired'')
   = UserError 500 ''Failed to fetch or sign user data''
   \<and> user_handler
     \<lparr> sha256 = (\<lambda>t. map of_char (take 4 t)), key_sign = (\<lambda>h. (length h, 7)),
       key_public = (1, 2) \<rparr>
     (\<lambda>r. HttpResponse 401 (JObj [(''title'', JStr ''Unauthorized'')]))
     (Some ''Basic abc'')
   = UserError 401 ''Invalid authorization header''"
proof -
  let ?k = "\<lparr> sha256 = (\<lambda>t. map of_char (take 4 t)), key_sign = (\<lambda>h. (length h, 7)),
       key_public = (1, 2) \<rparr>"
  let ?body = "JObj [(''title'', JStr ''Unauthorized'')]"
  let ?provider = "\<lambda>r :: provider_request. HttpResponse 401 ?body"
  have a: "take 7 ''Bearer expired'' = ''Bearer ''
      \<and> ?provider (user_request (split_space ''Bearer expired'' ! 1)) = HttpResponse 401 ?body
      \<and> \<not> axios_ok 401"
    by (simp add: axios_ok_def)
  have b: "take 7 ''Basic abc'' \<noteq> ''Bearer ''" by simp
  from C8_provider_failures_alike
         [where authHeader = "''Bearer expired''" and provider = ?provider and status = 401
            and body = ?body and k = ?k] a
  have "user_handler ?k ?provider (Some ''Bearer expired'')
          = UserError 500 ''Failed to fetch or sign user data''"
    by blast
  moreover from C8_provider_failures_alike
         [where authHeader = "''Basic abc''" and provider = ?provider and k = ?k] b
  have "user_handler ?k ?provider (Some ''Basic abc'')
          = UserError 401 ''Invalid authorization header''"
    by blast
  ultimately show ?thesis by blast
qed

text \<open>
  The claim as it is written fails: the answer to a provider's 401 (an expired token) is
  the answer to a provider's 503 (an outage).
\<close>

theorem C8_unauthorized_not_distinct:
  "user_handler
     \<lparr> sha256 = (\<lambda>t. map of_char (take 4 t)), key_sign = (\<lambda>h. (length h, 7)),
       key_public = (1, 2) \<rparr>
     (\<lambda>r. HttpResponse 401 (JObj [(''title'', JStr ''Unauthorized'')]))
     (Some ''Bearer expired'')
   = user_handler
     \<lparr> sha256 = (\<lambda>t. map of_char (take 4 t)), key_sign = (\<lambda>h. (length h, 7)),
       key_public = (1, 2) \<rparr>
     (\<lambda>r. HttpResponse 503 (JObj [(''title'', JStr ''Service Unavailable'')]))
     (Some ''Bearer expired'')"
  by (simp add: user_handler_def axios_ok_def)

subsection \<open>The session material in the browser\<close>




subsection \<open>The age field and the executor\<close>

lemma click_calls_executor:
  assumes "parseInt v = Some age" and "noir s = Some n" and "backend s = Some b"
  shows "executor_calls (click v s) = executor_calls s @ [age]"
    and "runs (click v s) = runs s @ [AwaitExecute n age]"
  using assms by (simp_all add: click_def start_execute_def showResult_def Let_def)

lemma click_then_initialize:
  assumes "parseInt v = Some age" and "noir s = None \<or> backend s = None"
    and "getCircuit tc = Some p"
  shows "executor_calls (resume tc now (length (runs s)) (click v s)) = executor_calls s @ [age]"
    and "runs (resume tc now (length (runs s)) (click v s)) = runs s @ [AwaitExecute p age]"
  using assms
  by (auto simp: click_def resume_def continue_run_def initializeNoir_def start_execute_def
        showResult_def Let_def nth_append)

text \<open>
  Claim C2, as the code has it. Before the executor is called, the handler rejects the
  content of the age field only when \<open>parseInt\<close> gives \<open>NaN\<close>: then it shows the message
  and calls nothing. Every integer that parses, whether in 0..255 or not, is the value
  that \<open>noir.execute\<close> is called with, unchanged: at once on an initialized page, and
  after a successful initialization otherwise.
\<close>

theorem C2_only_NaN_rejected_before_executor:
  "(parseInt v = None \<longrightarrow>
      click v s = showResult PleaseEnterValidAge False s
      \<and> executor_calls (click v s) = executor_calls s \<and> runs (click v s) = runs s)
   \<and> (parseInt v = Some age \<and> noir s = Some n \<and> backend s = Some b \<longrightarrow>
      executor_calls (click v s) = executor_calls s @ [age]
      \<and> runs (click v s) = runs s @ [AwaitExecute n age])
   \<and> (parseInt v = Some age \<and> (noir s = None \<or> backend s = None) \<and> getCircuit tc = Some p \<longrightarrow>
      executor_calls (resume tc now (length (runs s)) (click v s)) = executor_calls s @ [age]
      \<and> runs (resume tc now (length (runs s)) (click v s)) = runs s @ [AwaitExecute p age])"
proof -
  have "parseInt v = None \<longrightarrow>
      click v s = showResult PleaseEnterValidAge False s
      \<and> executor_calls (click v s) = executor_calls s \<and> runs (click v s) = runs s"
    by (simp add: click_def showResult_def)
  then show ?thesis
    using click_calls_executor [of v age s n b] click_then_initialize [of v age s tc p now]
    by blast
qed

theorem C2_only_NaN_rejected_before_executor_witness:
  "executor_calls (click ''abc''
        \<lparr> noir = Some (), backend = Some (), ageProof = None, result_shown = None,
          runs = ([] :: (unit, int) run list), executor_calls = [] \<rparr>) = []
   \<and> executor_calls (click ''25''
        \<lparr> noir = Some (), backend = Some (), ageProof = None, result_shown = None,
          runs = ([] :: (unit, int) run list), executor_calls = [] \<rparr>) = [25]"
proof -
  let ?s = "\<lparr> noir = Some (), backend = Some (), ageProof = None, result_shown = None,
          runs = ([] :: (unit, int) run list), executor_calls = [] \<rparr>"
  have nan: "parseInt ''abc'' = None"
    by (simp add: parseInt_def is_white_space_def digit_value_def Let_def)
  have p: "parseInt ''25'' = Some 25 \<and> noir ?s = Some () \<and> backend ?s = Some ()"
    by (simp add: parseInt_def is_white_space_def digit_value_def Let_def)
  from C2_only_NaN_rejected_before_executor [of "''abc''" ?s] nan
  have "executor_calls (click ''abc'' ?s) = executor_calls ?s" by blast
  moreover from C2_only_NaN_rejected_before_executor [of "''25''" ?s 25 "()" "()"] p
  have "executor_calls (click ''25'' ?s) = executor_calls ?s @ [25]" by blast
  ultimately show ?thesis by simp
qed

text \<open>
  The claim as it is written fails at the age 300, outside 0..255: the text \<open>300\<close>
  parses to the number 300, the handler calls \<open>noir.execute\<close> with it and waits for the
  executor. Nothing rejects the value beforehand.
\<close>

theorem C2_age_300_reaches_executor:
  "parseInt ''300'' = Some 300
   \<and> executor_calls (click ''300''
        \<lparr> noir = Some (), backend = Some (), ageProof = None, result_shown = None,
          runs = ([] :: (unit, int) run list), executor_calls = [] \<rparr>) = [300]
   \<and> runs (click ''300''
        \<lparr> noir = Some (), backend = Some (), ageProof = None, result_shown = None,
          runs = ([] :: (unit, int) run list), executor_calls = [] \<rparr>) = [AwaitExecute () 300]"
proof -
  have p: "parseInt ''300'' = Some 300"
    by (simp add: parseInt_def is_white_space_def digit_value_def Let_def)
  then show ?thesis
    by (simp add: click_calls_executor)
qed

subsection \<open>Self-verification\<close>

lemma start_execute_keeps_ageProof:
  "ageProof (fst (start_execute age s)) = ageProof s"
  by (simp add: start_execute_def caught_def showResult_def Let_def split: option.splits)

lemma start_execute_no_success:
  "result_shown (fst (start_execute age s)) \<noteq> Some (SuccessVerified d, f)"
  by (simp add: start_execute_def caught_def showResult_def Let_def split: option.splits)

lemma click_keeps_ageProof: "ageProof (click v s) = ageProof s"
  using start_execute_keeps_ageProof [of _ s]
  by (simp add: click_def showResult_def split: option.splits prod.splits)
     (metis fst_conv)

lemma click_no_success:
  "result_shown (click v s) = Some (SuccessVerified d, f) \<Longrightarrow> result_shown (click v s) = result_shown s"
  using start_execute_no_success [of _ s d f]
  by (simp add: click_def showResult_def split: option.splits prod.splits if_splits)
     (metis fst_conv)

text \<open>
  One continuation of a run writes the slot \<open>ageProof\<close>, or shows the success message, only
  at the end of a run that waited for \<open>verifyProof\<close> and got \<open>true\<close>; what it writes and
  shows is the serialized form of the proof that was verified.
\<close>

lemma resume_surfaces_only_verified:
  assumes "ageProof (resume tc now i s) \<noteq> ageProof s
           \<or> (result_shown (resume tc now i s) = Some (SuccessVerified d, f)
              \<and> result_shown (resume tc now i s) \<noteq> result_shown s)"
  shows "\<exists>b proof. i < length (runs s) \<and> runs s ! i = AwaitVerify b proof
           \<and> verifyProof tc b proof = Some True
           \<and> ageProof (resume tc now i s) = Some (serializeProof now proof)
           \<and> result_shown (resume tc now i s) = Some (SuccessVerified (serializeProof now proof), True)"
proof (cases "i < length (runs s)")
  case False
  with assms show ?thesis by (simp add: resume_def)
next
  case True
  show ?thesis
  proof (cases "runs s ! i")
    case (AwaitInit age)
    with True assms show ?thesis
      using start_execute_keeps_ageProof [of age "initializeNoir tc s"]
        start_execute_no_success [of age "initializeNoir tc s" d f]
      by (auto simp: resume_def continue_run_def initializeNoir_def showResult_def
            split: prod.splits option.splits)
  next
    case (AwaitExecute n age)
    with True assms show ?thesis
      by (auto simp: resume_def continue_run_def caught_def showResult_def
            split: prod.splits option.splits)
  next
    case (AwaitProof b w)
    with True assms show ?thesis
      by (auto simp: resume_def continue_run_def caught_def showResult_def
            split: prod.splits option.splits)
  next
    case (AwaitVerify b pr)
    with True assms show ?thesis
      by (auto simp: resume_def continue_run_def caught_def showResult_def Let_def
            split: prod.splits option.splits if_splits)
  next
    case Finished
    with True assms show ?thesis
      by (auto simp: resume_def continue_run_def)
  qed
qed


lemma step_surfaces_only_verified:
  assumes "ageProof (step tc s e) \<noteq> ageProof s
           \<or> (result_shown (step tc s e) = Some (SuccessVerified d, f)
              \<and> result_shown (step tc s e) \<noteq> result_shown s)"
  shows "\<exists>now b pr. verifyProof tc b pr = Some True
           \<and> ageProof (step tc s e) = Some (serializeProof now pr)
           \<and> result_shown (step tc s e) = Some (SuccessVerified (serializeProof now pr), True)"
proof (cases e)
  case (Click v)
  with assms show ?thesis
    using click_keeps_ageProof [of v s] click_no_success [of v s d f] by auto
next
  case (Resume i now)
  with assms have "ageProof (resume tc now i s) \<noteq> ageProof s
           \<or> (result_shown (resume tc now i s) = Some (SuccessVerified d, f)
              \<and> result_shown (resume tc now i s) \<noteq> result_shown s)"
    by auto
  from resume_surfaces_only_verified [OF this]
  obtain b pr where "verifyProof tc b pr = Some True"
    and "ageProof (resume tc now i s) = Some (serializeProof now pr)"
    and "result_shown (resume tc now i s) = Some (SuccessVerified (serializeProof now pr), True)"
    by blast
  with Resume show ?thesis by auto
qed

lemma run_events_snoc: "run_events tc s (es @ [e]) = step tc (run_events tc s es) e"
  by (simp add: run_events_def)

lemma run_events_stores_only_verified:
  "ageProof (run_events tc s es) \<noteq> ageProof s \<Longrightarrow>
     \<exists>now b pr. verifyProof tc b pr = Some True
        \<and> ageProof (run_events tc s es) = Some (serializeProof now pr)"
proof (induction es rule: rev_induct)
  case Nil
  then show ?case by (simp add: run_events_def)
next
  case (snoc e es)
  show ?case
  proof (cases "ageProof (step tc (run_events tc s es) e) = ageProof (run_events tc s es)")
    case True
    with snoc show ?thesis by (simp add: run_events_snoc)
  next
    case False
    then show ?thesis
      using step_surfaces_only_verified [of tc "run_events tc s es" e]
      by (auto simp: run_events_snoc)
  qed
qed

lemma run_events_shows_only_verified:
  "result_shown (run_events tc s es) = Some (SuccessVerified d, f) \<Longrightarrow>
   result_shown (run_events tc s es) \<noteq> result_shown s \<Longrightarrow>
     \<exists>now b pr. verifyProof tc b pr = Some True \<and> d = serializeProof now pr \<and> f"
proof (induction es rule: rev_induct)
  case Nil
  then show ?case by (simp add: run_events_def)
next
  case (snoc e es)
  show ?case
  proof (cases "result_shown (step tc (run_events tc s es) e) = result_shown (run_events tc s es)")
    case True
    with snoc show ?thesis by (simp add: run_events_snoc)
  next
    case False
    with snoc.prems(1) show ?thesis
      using step_surfaces_only_verified [of tc "run_events tc s es" e d f]
      by (auto simp: run_events_snoc)
  qed
qed

lemma resume_unverified:
  assumes "i < length (runs s)" and "runs s ! i = AwaitVerify b pr"
    and "verifyProof tc b pr \<noteq> Some True"
  shows "ageProof (resume tc now i s) = ageProof s"
    and "runs (resume tc now i s) ! i = Finished"
    and "result_shown (resume tc now i s)
          = Some (if verifyProof tc b pr = Some False then VerificationFailed
                  else AnErrorOccurred, False)"
  using assms
  by (auto simp: resume_def continue_run_def caught_def showResult_def
        split: option.splits)

lemma resume_verified:
  assumes "i < length (runs s)" and "runs s ! i = AwaitVerify b pr"
    and "verifyProof tc b pr = Some True"
  shows "ageProof (resume tc now i s) = Some (serializeProof now pr)"
  using assms
  by (simp add: resume_def continue_run_def showResult_def Let_def)

lemma resume_proved:
  assumes "i < length (runs s)" and "runs s ! i = AwaitProof b w"
    and "generateProof tc b w = Some pr" and "backend s = Some b'"
  shows "resume tc now i s = s\<lparr>runs := (runs s)[i := AwaitVerify b' pr]\<rparr>"
  using assms by (simp add: resume_def continue_run_def)

text \<open>
  One submission from click to end, nothing in between, on an initialized page: the
  executor gives a witness, the prover a proof, and the verifier says yes or no.
\<close>

lemma submit_to_verdict:
  assumes "parseInt v = Some age" and "noir s = Some n" and "backend s = Some n"
    and "execute tc n age = Some w" and "generateProof tc n w = Some pr"
    and "verifyProof tc n pr = Some isValid"
  shows "ageProof (submit tc now v s)
           = (if isValid then Some (serializeProof now pr) else ageProof s)"
    and "result_shown (submit tc now v s)
           = (if isValid then Some (SuccessVerified (serializeProof now pr), True)
              else Some (VerificationFailed, False))"
  using assms
  by (simp_all add: submit_def run_events_def click_def start_execute_def resume_def
        continue_run_def showResult_def Let_def nth_append)

text \<open>
  Claim C3. Over any sequence of clicks and continuations, from any page: if the slot
  \<open>ageProof\<close> has changed, it holds the serialized form of a proof for which
  \<open>verifyProof\<close> returned true; if the success message is newly shown, it shows such a
  form. A run whose verification returns false (or throws) ends with a failure message and
  leaves the slot as it was. A run that gets a proof from the prover goes on to wait for
  its verification and surfaces nothing yet. For one submission from click to end: the
  proof is stored and reported exactly when \<open>verifyProof\<close> returned true.
\<close>

theorem C3_only_verified_proofs_surface:
  "(ageProof (run_events tc s es) \<noteq> ageProof s \<longrightarrow>
      (\<exists>now b pr. verifyProof tc b pr = Some True
          \<and> ageProof (run_events tc s es) = Some (serializeProof now pr)))
   \<and> (result_shown (run_events tc s es) = Some (SuccessVerified d, f)
        \<and> result_shown (run_events tc s es) \<noteq> result_shown s \<longrightarrow>
      (\<exists>now b pr. verifyProof tc b pr = Some True \<and> d = serializeProof now pr \<and> f))
   \<and> (i < length (runs s) \<and> runs s ! i = AwaitVerify b' pr' \<and> verifyProof tc b' pr' \<noteq> Some True \<longrightarrow>
        ageProof (resume tc now' i s) = ageProof s
        \<and> runs (resume tc now' i s) ! i = Finished
        \<and> result_shown (resume tc now' i s)
            = Some (if verifyProof tc b' pr' = Some False then VerificationFailed
                    else AnErrorOccurred, False))
   \<and> (i < length (runs s) \<and> runs s ! i = AwaitProof b' w \<and> generateProof tc b' w = Some pr'
        \<and> backend s = Some b'' \<longrightarrow>
        resume tc now' i s = s\<lparr>runs := (runs s)[i := AwaitVerify b'' pr']\<rparr>)
   \<and> (parseInt v = Some age \<and> noir s = Some n \<and> backend s = Some n
        \<and> execute tc n age = Some w \<and> generateProof tc n w = Some pr'
        \<and> verifyProof tc n pr' = Some isValid \<longrightarrow>
        ageProof (submit tc now' v s)
          = (if isValid then Some (serializeProof now' pr') else ageProof s)
        \<and> result_shown (submit tc now' v s)
          = (if isValid then Some (SuccessVerified (serializeProof now' pr'), True)
             else Some (VerificationFailed, False)))"
  using run_events_stores_only_verified [of tc s es]
    run_events_shows_only_verified [of tc s es d f]
    resume_unverified [of i s b' pr' tc now']
    resume_proved [of i s b' w tc pr' b'' now']
    submit_to_verdict [of v age s n tc w pr' isValid now']
  by blast

theorem C3_only_verified_proofs_surface_witness:
  "(\<exists>now pr. ageProof (run_events
           \<lparr> getCircuit = Some (), execute = (\<lambda>p age. Some age),
             generateProof = (\<lambda>p w. Some \<lparr> proof_bytes = [7], publicInputs = Some [] \<rparr>),
             verifyProof = (\<lambda>p pr. Some True) \<rparr>
           \<lparr> noir = Some (), backend = Some (), ageProof = None,
             result_shown = Some (GeneratingProof, True),
             runs = [AwaitVerify () \<lparr> proof_bytes = [7], publicInputs = Some [] \<rparr>],
             executor_calls = [25 :: int] \<rparr>
           [Resume 0 1000]) = Some (serializeProof now pr))
   \<and> ageProof (resume
       \<lparr> getCircuit = Some (), execute = (\<lambda>p age. Some age),
         generateProof = (\<lambda>p w. Some \<lparr> proof_bytes = [7], publicInputs = Some [] \<rparr>),
         verifyProof = (\<lambda>p pr. Some False) \<rparr>
       1000 0
       \<lparr> noir = Some (), backend = Some (), ageProof = None,
         result_shown = Some (GeneratingProof, True),
         runs = [AwaitVerify () \<lparr> proof_bytes = [7], publicInputs = Some [] \<rparr>],
         executor_calls = [25 :: int] \<rparr>) = None
   \<and> result_shown (resume
       \<lparr> getCircuit = Some (), execute = (\<lambda>p age. Some age),
         generateProof = (\<lambda>p w. Some \<lparr> proof_bytes = [7], publicInputs = Some [] \<rparr>),
         verifyProof = (\<lambda>p pr. Some False) \<rparr>
       1000 0
       \<lparr> noir = Some (), backend = Some (), ageProof = None,
         result_shown = Some (GeneratingProof, True),
         runs = [AwaitVerify () \<lparr> proof_bytes = [7], publicInputs = Some [] \<rparr>],
         executor_calls = [25 :: int] \<rparr>) = Some (VerificationFailed, False)"
proof -
  let ?pr = "\<lparr> proof_bytes = [7], publicInputs = Some [] \<rparr>"
  let ?yes = "\<lparr> getCircuit = Some (), execute = (\<lambda>p age. Some age),
         generateProof = (\<lambda>p w. Some ?pr),
         verifyProof = (\<lambda>p pr. Some True) \<rparr> :: (unit, int) toolchain"
  let ?no = "\<lparr> getCircuit = Some (), execute = (\<lambda>p age. Some age),
         generateProof = (\<lambda>p w. Some ?pr),
         verifyProof = (\<lambda>p pr. Some False) \<rparr> :: (unit, int) toolchain"
  let ?s = "\<lparr> noir = Some (), backend = Some (), ageProof = None,
         result_shown = Some (GeneratingProof, True),
         runs = [AwaitVerify () ?pr], executor_calls = [25 :: int] \<rparr> :: (unit, int) page"
  have stored: "ageProof (run_events ?yes ?s [Resume 0 1000]) \<noteq> ageProof ?s"
    by (simp add: run_events_def resume_def continue_run_def showResult_def Let_def)
  from C3_only_verified_proofs_surface
         [where tc = ?yes and s = ?s and es = "[Resume 0 1000]"] stored
  have "\<exists>now b pr. verifyProof ?yes b pr = Some True
          \<and> ageProof (run_events ?yes ?s [Resume 0 1000]) = Some (serializeProof now pr)"
    by blast
  then have first: "\<exists>now pr.
          ageProof (run_events ?yes ?s [Resume 0 1000]) = Some (serializeProof now pr)"
    by blast
  have h: "0 < length (runs ?s) \<and> runs ?s ! 0 = AwaitVerify () ?pr
      \<and> verifyProof ?no () ?pr \<noteq> Some True"
    by simp
  from C3_only_verified_proofs_surface
         [where tc = ?no and s = ?s and i = 0 and b' = "()" and pr' = ?pr and now' = 1000] h
  have "ageProof (resume ?no 1000 0 ?s) = ageProof ?s
      \<and> result_shown (resume ?no 1000 0 ?s)
          = Some (if verifyProof ?no () ?pr = Some False then VerificationFailed
                  else AnErrorOccurred, False)"
    by blast
  then have "ageProof (resume ?no 1000 0 ?s) = None
      \<and> result_shown (resume ?no 1000 0 ?s) = Some (VerificationFailed, False)"
    by simp
  with first show ?thesis by blast
qed

subsection \<open>Submissions while a run is pending\<close>

text \<open>
  Claim C9, as the code has it. The handler has no guard for a run in flight: on a page
  whose toolchain is initialized, whatever runs are pending, a click with an age that
  parses starts one more run (the executor is called with the age), leaves the earlier
  runs as they are and shows the progress message. A run whose verification succeeds
  writes the slot \<open>ageProof\<close>, whatever the slot held.
\<close>

theorem C9_submission_while_pending_accepted:
  assumes "parseInt v = Some age" and "noir s = Some n" and "backend s = Some b"
  shows "runs (click v s) = runs s @ [AwaitExecute n age]
       \<and> executor_calls (click v s) = executor_calls s @ [age]
       \<and> result_shown (click v s) = Some (GeneratingProof, True)
       \<and> ageProof (click v s) = ageProof s
       \<and> (i < length (runs s) \<and> runs s ! i = AwaitVerify b' pr \<and> verifyProof tc b' pr = Some True \<longrightarrow>
            ageProof (resume tc now i s) = Some (serializeProof now pr))"
  using assms click_calls_executor [OF assms] click_keeps_ageProof [of v s]
    resume_verified [of i s b' pr tc now]
  by (simp add: click_def start_execute_def showResult_def Let_def)

theorem C9_submission_while_pending_accepted_witness:
  "runs (click ''30''
      \<lparr> noir = Some (), backend = Some (), ageProof = None,
        result_shown = Some (GeneratingProof, True),
        runs = [AwaitExecute () 25 :: (unit, int) run], executor_calls = [25] \<rparr>)
   = [AwaitExecute () 25, AwaitExecute () 30]"
proof -
  have p: "parseInt ''30'' = Some 30"
    by (simp add: parseInt_def is_white_space_def digit_value_def Let_def)
  let ?s = "\<lparr> noir = Some (), backend = Some (), ageProof = None,
        result_shown = Some (GeneratingProof, True),
        runs = [AwaitExecute () 25 :: (unit, int) run], executor_calls = [25] \<rparr>"
  have n: "noir ?s = Some ()" and b: "backend ?s = Some ()" by simp_all
  from C9_submission_while_pending_accepted [OF p n b]
  have "runs (click ''30'' ?s) = runs ?s @ [AwaitExecute () 30]" by blast
  then show ?thesis by simp
qed

text \<open>
  The claim as it is written fails: two clicks in a row on an idle page leave two runs in
  flight, both waiting for the executor, and the second click is answered with the
  progress message. When both runs go on to the end, the first writes its proof into the
  slot and the second replaces it.
\<close>

theorem C9_two_runs_in_flight:
  "runs (run_events
      \<lparr> getCircuit = Some (), execute = (\<lambda>p age. if 18 \<le> age then Some age else None),
        generateProof = (\<lambda>p w. Some \<lparr> proof_bytes = [word_of_int w], publicInputs = Some [] \<rparr>),
        verifyProof = (\<lambda>p pr. Some True) \<rparr>
      \<lparr> noir = Some (), backend = Some (), ageProof = None, result_shown = None,
        runs = [], executor_calls = [] \<rparr>
      [Click ''25'', Click ''30''])
    = [AwaitExecute () 25, AwaitExecute () 30]
   \<and> result_shown (run_events
      \<lparr> getCircuit = Some (), execute = (\<lambda>p age. if 18 \<le> age then Some age else None),
        generateProof = (\<lambda>p w. Some \<lparr> proof_bytes = [word_of_int w], publicInputs = Some [] \<rparr>),
        verifyProof = (\<lambda>p pr. Some True) \<rparr>
      \<lparr> noir = Some (), backend = Some (), ageProof = None, result_shown = None,
        runs = [], executor_calls = [] \<rparr>
      [Click ''25'', Click ''30'']) = Some (GeneratingProof, True)
   \<and> ageProof (run_events
      \<lparr> getCircuit = Some (), execute = (\<lambda>p age. if 18 \<le> age then Some age else None),
        generateProof = (\<lambda>p w. Some \<lparr> proof_bytes = [word_of_int w], publicInputs = Some [] \<rparr>),
        verifyProof = (\<lambda>p pr. Some True) \<rparr>
      \<lparr> noir = Some (), backend = Some (), ageProof = None, result_shown = None,
        runs = [], executor_calls = [] \<rparr>
      [Click ''25'', Click ''30'', Resume 0 1, Resume 1 2, Resume 0 3, Resume 1 4, Resume 0 5])
    = Some \<lparr> stored_proof = [25], stored_publicInputs = Some [], timestamp = 5 \<rparr>
   \<and> ageProof (run_events
      \<lparr> getCircuit = Some (), execute = (\<lambda>p age. if 18 \<le> age then Some age else None),
        generateProof = (\<lambda>p w. Some \<lparr> proof_bytes = [word_of_int w], publicInputs = Some [] \<rparr>),
        verifyProof = (\<lambda>p pr. Some True) \<rparr>
      \<lparr> noir = Some (), backend = Some (), ageProof = None, result_shown = None,
        runs = [], executor_calls = [] \<rparr>
      [Click ''25'', Click ''30'', Resume 0 1, Resume 1 2, Resume 0 3, Resume 1 4, Resume 0 5,
       Resume 1 6])
    = Some \<lparr> stored_proof = [30], stored_publicInputs = Some [], timestamp = 6 \<rparr>"
proof -
  have p: "parseInt ''25'' = Some 25" "parseInt ''30'' = Some 30"
    by (simp_all add: parseInt_def is_white_space_def digit_value_def Let_def)
  show ?thesis
    by (simp add: run_events_def click_def p start_execute_def showResult_def resume_def
          continue_run_def serializeProof_def or_empty_def Let_def)
qed

end
